theory Spec2Isabelle
  imports Complex_Main
begin

section \<open>Common Python notions\<close>

text \<open>
  Exceptions of the Python sources and the error kinds named by the specification,
  as values. A computation that may raise returns \<open>error + 'a\<close>, with \<open>Inl\<close> the
  exception.
\<close>

datatype error =
    AssertionError
  | ValueError
  | ZeroDivisionError
  | OverflowError
  | NameError
  | IndexError
  | AttributeError
  | ParameterTypeMismatch
  | EmptyTrainingSet
  | BasisExtensionStalled
  | LinearSolverFailure

text \<open>\<^verbatim>\<open>xrange(n)\<close>: the integers \<open>0, ..., n - 1\<close>, none when \<open>n \<le> 0\<close>.\<close>

definition xrange :: "int \<Rightarrow> int list" where
  "xrange n = [0..n - 1]"

text \<open>
  \<^verbatim>\<open>itertools.product(xs, ys)\<close>: all pairs, the first component varying slowest.
\<close>

definition itertools_product :: "'a list \<Rightarrow> 'b list \<Rightarrow> ('a \<times> 'b) list" where
  "itertools_product xs ys = concat (map (\<lambda>x. map (\<lambda>y. (x, y)) ys) xs)"

text \<open>\<^verbatim>\<open>'{}'.format(i)\<close> for an integer: its decimal numeral.\<close>

definition digit_char :: "nat \<Rightarrow> char" where
  "digit_char d = ''0123456789'' ! d"

fun str_nat :: "nat \<Rightarrow> string" where
  "str_nat n = (if n < 10 then [digit_char n] else str_nat (n div 10) @ [digit_char (n mod 10)])"

declare str_nat.simps [simp del]

definition str_int :: "int \<Rightarrow> string" where
  "str_int i = (if i < 0 then CHR ''-'' # str_nat (nat (- i)) else str_nat (nat i))"

section \<open>Double precision arithmetic\<close>

text \<open>
  A Python float is an IEEE 754 binary64 number; a finite one is modelled by the real
  it denotes. \<open>fl\<close> rounds a real to the nearest double, ties to the even mantissa: the
  exponent \<open>expo x\<close> of the binade of \<open>x\<close>, not below that of the subnormal numbers and not
  above the largest, the spacing \<open>ulp x\<close> of the doubles of this binade, and the multiple
  of the spacing nearest to \<open>x\<close>. A result of magnitude \<open>2 ^ 1024\<close> or more does not exist
  as a finite double.
\<close>

primrec expo_search :: "nat \<Rightarrow> real \<Rightarrow> int" where
  "expo_search 0 a = - 1022"
| "expo_search (Suc n) a =
     (if 2 powi (int (Suc n) - 1022) \<le> a then int (Suc n) - 1022 else expo_search n a)"

definition expo :: "real \<Rightarrow> int" where
  "expo x = expo_search 2045 \<bar>x\<bar>"

definition ulp :: "real \<Rightarrow> real" where
  "ulp x = 2 powi (expo x - 52)"

definition round_half_even :: "real \<Rightarrow> int" where
  "round_half_even r =
     (let f = \<lfloor>r\<rfloor>
      in if r - of_int f < 1 / 2 then f
         else if 1 / 2 < r - of_int f then f + 1
         else if even f then f else f + 1)"

definition fl :: "real \<Rightarrow> real" where
  "fl x = of_int (round_half_even (x / ulp x)) * ulp x"

definition overflows :: "real \<Rightarrow> bool" where
  "overflows x \<longleftrightarrow> 2 ^ 1024 \<le> \<bar>fl x\<bar>"

text \<open>
  The operations of the sources on numbers. Converting an integer to a float
  (\<^verbatim>\<open>int * float\<close> converts the integer first) and the true division of two integers
  round correctly and raise \<^verbatim>\<open>OverflowError\<close> when the result is too large; the product of
  two floats rounds and overflows to an infinity, which only comparisons read here.
\<close>

definition float_of_int :: "int \<Rightarrow> error + real" where
  "float_of_int k =
     (if overflows (of_int k) then Inl OverflowError else Inr (fl (of_int k)))"

definition true_divide :: "int \<Rightarrow> int \<Rightarrow> error + real" where
  "true_divide a b =
     (if b = 0 then Inl ZeroDivisionError
      else if overflows (of_int a / of_int b) then Inl OverflowError
      else Inr (fl (of_int a / of_int b)))"

datatype double = Finite real | PosInf | NegInf

definition float_mul :: "real \<Rightarrow> real \<Rightarrow> double" where
  "float_mul a b =
     (if overflows (a * b) then (if 0 < a * b then PosInf else NegInf)
      else Finite (fl (a * b)))"

text \<open>
  \<^verbatim>\<open>X >= b\<close> and \<^verbatim>\<open>X < b\<close> for a finite coordinate \<open>X\<close> and a computed bound \<open>b\<close>.
\<close>

fun at_least :: "real \<Rightarrow> double \<Rightarrow> bool" where
  "at_least X (Finite b) = (b \<le> X)"
| "at_least X PosInf = False"
| "at_least X NegInf = True"

fun below :: "real \<Rightarrow> double \<Rightarrow> bool" where
  "below X (Finite b) = (X < b)"
| "below X PosInf = True"
| "below X NegInf = False"

text \<open>
  The double the code computes for the bound \<open>k / n\<close> of a block, \<^verbatim>\<open>k * (1 / n)\<close>, when
  \<open>k\<close> is an integer that converts exactly: the rounded product of \<open>k\<close> and the rounded
  quotient.
\<close>

definition bound :: "int \<Rightarrow> int \<Rightarrow> real" where
  "bound k n = fl (of_int k * fl (1 / of_int n))"

section \<open>Parameters and parameter functionals\<close>

text \<open>
  A numpy array: its shape and its entries in row-major order. A \<^verbatim>\<open>Parameter\<close> is a
  dictionary from component names to arrays; a parameter type maps component names to
  shapes.
\<close>

record ndarray =
  shape :: "int list"
  data :: "real list"

type_synonym Parameter = "string \<rightharpoonup> ndarray"

type_synonym ParameterType = "(string \<times> int list) list"

text \<open>
  \<^verbatim>\<open>np.array(values).reshape(shape)\<close> for a shape without negative entries: the same
  entries under the new shape, \<^verbatim>\<open>ValueError\<close> when the sizes differ. (A negative entry
  is either numpy's placeholder \<open>-1\<close> or an error; no caller below passes one.)
\<close>

definition reshape :: "real list \<Rightarrow> int list \<Rightarrow> error + ndarray" where
  "reshape values shp =
     (if (\<forall>d \<in> set shp. 0 \<le> d) \<and> prod_list shp = int (length values)
      then Inr \<lparr>shape = shp, data = values\<rparr>
      else Inl ValueError)"

text \<open>
  The fields \<^verbatim>\<open>ProjectionParameterFunctional\<close> is constructed with in
  \<^verbatim>\<open>thermalblock.py\<close>.
\<close>

record ProjectionParameterFunctional =
  component_name :: string
  component_shape :: "int list"
  coordinates :: "int list"
  functional_name :: string

record CubicParameterSpace =
  parameter_type :: ParameterType
  minimum :: real
  maximum :: real

section \<open>The thermal block problem (\<^verbatim>\<open>pymor/analyticalproblems/thermalblock.py\<close>)\<close>

text \<open>
  \<^verbatim>\<open>ThermalBlockDiffusionFunction\<close>: the fields \<^verbatim>\<open>self.x, self.y, self.dx, self.dy\<close>, two
  integers and two finite floats.
\<close>

record ThermalBlockDiffusionFunction =
  block_x :: int
  block_y :: int
  block_dx :: real
  block_dy :: real

text \<open>
  \<^verbatim>\<open>evaluate(self, x, mu=None)\<close> at one point \<open>X = (X[..., 0], X[..., 1])\<close> with finite
  coordinates. Each bound is the float product of the converted integer and the step;
  a numpy comparison gives a boolean that the product reads as 0 or 1.
\<close>

definition evaluate ::
  "ThermalBlockDiffusionFunction \<Rightarrow> real \<times> real \<Rightarrow> Parameter option \<Rightarrow> error + real" where
  "evaluate self X mu =
     (case float_of_int (block_x self) of Inl e \<Rightarrow> Inl e | Inr fx \<Rightarrow>
      case float_of_int (block_x self + 1) of Inl e \<Rightarrow> Inl e | Inr fx1 \<Rightarrow>
      case float_of_int (block_y self) of Inl e \<Rightarrow> Inl e | Inr fy \<Rightarrow>
      case float_of_int (block_y self + 1) of Inl e \<Rightarrow> Inl e | Inr fy1 \<Rightarrow>
        Inr (1 * of_bool (at_least (fst X) (float_mul fx (block_dx self)))
               * of_bool (below (fst X) (float_mul fx1 (block_dx self)))
               * of_bool (at_least (snd X) (float_mul fy (block_dy self)))
               * of_bool (below (snd X) (float_mul fy1 (block_dy self)))))"

text \<open>The values of a tuple of block functions at one point, in order.\<close>

fun evaluate_all ::
  "ThermalBlockDiffusionFunction list \<Rightarrow> real \<times> real \<Rightarrow> Parameter option
     \<Rightarrow> error + real list" where
  "evaluate_all [] X mu = Inr []"
| "evaluate_all (g # gs) X mu =
     (case evaluate g X mu of
        Inl e \<Rightarrow> Inl e
      | Inr v \<Rightarrow> (case evaluate_all gs X mu of Inl e \<Rightarrow> Inl e | Inr vs \<Rightarrow> Inr (v # vs)))"

text \<open>The closure \<^verbatim>\<open>parameter_functional_factory(x, y)\<close> over \<^verbatim>\<open>num_blocks\<close>.\<close>

definition parameter_functional_factory ::
  "int \<times> int \<Rightarrow> int \<Rightarrow> int \<Rightarrow> ProjectionParameterFunctional" where
  "parameter_functional_factory num_blocks x y =
     \<lparr>component_name = ''diffusion'',
      component_shape = [snd num_blocks, fst num_blocks],
      coordinates = [snd num_blocks - y - 1, x],
      functional_name = ''diffusion_'' @ str_int x @ ''_'' @ str_int y\<rparr>"

datatype domain_description = RectDomain | LineDomain

record 'rhs ThermalBlockProblem =
  domain :: domain_description
  rhs :: 'rhs
  diffusion_functions :: "ThermalBlockDiffusionFunction list"
  diffusion_functionals :: "ProjectionParameterFunctional list"
  problem_name :: string
  parameter_space :: CubicParameterSpace
  parameter_range :: "real \<times> real"
  num_blocks :: "int \<times> int"

text \<open>
  \<^verbatim>\<open>ThermalBlockProblem.__init__\<close>. With \<^verbatim>\<open>from __future__ import division\<close>,
  \<^verbatim>\<open>1 / num_blocks[0]\<close> is true division: it raises \<^verbatim>\<open>ZeroDivisionError\<close> at 0 and gives
  the rounded quotient otherwise.
\<close>

definition ThermalBlockProblem_init ::
  "int \<times> int \<Rightarrow> real \<times> real \<Rightarrow> 'rhs \<Rightarrow> error + 'rhs ThermalBlockProblem" where
  "ThermalBlockProblem_init nb prange f =
     (let pspace = \<lparr>parameter_type = [(''diffusion'', [snd nb, fst nb])],
                    minimum = fst prange, maximum = snd prange\<rparr>
      in case true_divide 1 (fst nb) of Inl e \<Rightarrow> Inl e | Inr dx \<Rightarrow>
         case true_divide 1 (snd nb) of Inl e \<Rightarrow> Inl e | Inr dy \<Rightarrow>
         let blocks = itertools_product (xrange (fst nb)) (xrange (snd nb))
         in Inr \<lparr>domain = RectDomain,
                 rhs = f,
                 diffusion_functions =
                   map (\<lambda>(x, y). \<lparr>block_x = x, block_y = y, block_dx = dx, block_dy = dy\<rparr>) blocks,
                 diffusion_functionals =
                   map (\<lambda>(x, y). parameter_functional_factory nb x y) blocks,
                 problem_name = ''ThermalBlock'',
                 parameter_space = pspace,
                 parameter_range = prange,
                 num_blocks = nb\<rparr>)"

text \<open>
  The values of all block functions of the \<open>nb\<close> problem at one point, in construction
  order.
\<close>

definition diffusion_values :: "int \<times> int \<Rightarrow> real \<times> real \<Rightarrow> error + real list" where
  "diffusion_values nb X =
     (case ThermalBlockProblem_init nb (0.1, 1) () of
        Inl e \<Rightarrow> Inl e
      | Inr problem \<Rightarrow> evaluate_all (diffusion_functions problem) X None)"

section \<open>Affine assembly\<close>

text \<open>
  Modelled from the spec: \<^verbatim>\<open>ProjectionParameterFunctional.evaluate\<close> and the assembly of
  the affine operator (\<^verbatim>\<open>pymor.parameters\<close> and the discretizer are not under src/).
  A projection functional reads one scalar entry of one named component at fixed
  coordinates; it was built against the parameter type that gives its component its
  shape. \<^verbatim>\<open>assemble(mu)\<close> fails with \<^verbatim>\<open>ParameterTypeMismatch\<close> if the component shapes of
  \<open>mu\<close> do not match that type, and otherwise yields the weights \<open>functional_k(mu)\<close> of the
  sum \<open>\<Sum>k. functional_k(mu) * component_k\<close>.
\<close>

fun flat_index :: "int list \<Rightarrow> int list \<Rightarrow> nat option" where
  "flat_index [] [] = Some 0"
| "flat_index (d # ds) (c # cs) =
     (if 0 \<le> c \<and> c < d
      then map_option (\<lambda>r. nat c * nat (prod_list ds) + r) (flat_index ds cs)
      else None)"
| "flat_index _ _ = None"

definition functional_parameter_type :: "ProjectionParameterFunctional \<Rightarrow> ParameterType" where
  "functional_parameter_type f = [(component_name f, component_shape f)]"

definition matches_type :: "Parameter \<Rightarrow> ParameterType \<Rightarrow> bool" where
  "matches_type mu pt =
     list_all (\<lambda>(n, s). case mu n of None \<Rightarrow> False | Some a \<Rightarrow> shape a = s) pt"

definition functional_evaluate :: "ProjectionParameterFunctional \<Rightarrow> Parameter \<Rightarrow> error + real" where
  "functional_evaluate f mu =
     (if \<not> matches_type mu (functional_parameter_type f) then Inl ParameterTypeMismatch
      else case mu (component_name f) of
        None \<Rightarrow> Inl ParameterTypeMismatch
      | Some a \<Rightarrow>
          (case flat_index (shape a) (coordinates f) of
             None \<Rightarrow> Inl IndexError
           | Some i \<Rightarrow> if i < length (data a) then Inr (data a ! i) else Inl IndexError))"

fun assemble :: "ProjectionParameterFunctional list \<Rightarrow> Parameter \<Rightarrow> error + real list" where
  "assemble [] mu = Inr []"
| "assemble (f # fs) mu =
     (case functional_evaluate f mu of
        Inl e \<Rightarrow> Inl e
      | Inr w \<Rightarrow> (case assemble fs mu of Inl e \<Rightarrow> Inl e | Inr ws \<Rightarrow> Inr (w # ws)))"

text \<open>
  The diffusion field \<open>d(x, mu)\<close> of the problem's docstring as that weighted sum, the
  components being the block functions.
\<close>

definition diffusion ::
  "'rhs ThermalBlockProblem \<Rightarrow> real \<times> real \<Rightarrow> Parameter \<Rightarrow> error + real" where
  "diffusion problem X mu =
     (case assemble (diffusion_functionals problem) mu of
        Inl e \<Rightarrow> Inl e
      | Inr ws \<Rightarrow>
          (case evaluate_all (diffusion_functions problem) X (Some mu) of
             Inl e \<Rightarrow> Inl e
           | Inr vs \<Rightarrow> Inr (sum_list (map (\<lambda>(w, v). w * v) (zip ws vs)))))"

section \<open>The demo's parameter (\<^verbatim>\<open>pymor/demos/thermalblock_gui.py\<close>)\<close>

definition PARAM_STEPS :: int where "PARAM_STEPS = 10"
definition PARAM_MIN :: real where "PARAM_MIN = 0.1"
definition PARAM_MAX :: real where "PARAM_MAX = 1"

text \<open>
  \<^verbatim>\<open>ParamRuler.__init__\<close>: one spin box per pair of the two nested \<^verbatim>\<open>xrange\<close> loops, each
  set to \<^verbatim>\<open>PARAM_MIN\<close>. A spin box is modelled by its value.
\<close>

definition ParamRuler_spins :: "int \<Rightarrow> int \<Rightarrow> real list" where
  "ParamRuler_spins XBLOCKS YBLOCKS =
     map (\<lambda>_. PARAM_MIN) (itertools_product (xrange XBLOCKS) (xrange YBLOCKS))"

text \<open>
  The parameter \<^verbatim>\<open>SimPanel.solve_update\<close> builds from the spin values:
  \<^verbatim>\<open>Parameter({'diffusion': np.array([...]).reshape((XBLOCKS, YBLOCKS))})\<close>.
\<close>

definition solve_update_mu :: "int \<Rightarrow> int \<Rightarrow> real list \<Rightarrow> error + Parameter" where
  "solve_update_mu XBLOCKS YBLOCKS spins =
     (case reshape spins [XBLOCKS, YBLOCKS] of
        Inl e \<Rightarrow> Inl e
      | Inr a \<Rightarrow> Inr [''diffusion'' \<mapsto> a])"

text \<open>
  \<^verbatim>\<open>SimBase.__init__\<close> builds the problem from the block counts;
  \<^verbatim>\<open>solve_update\<close> then passes its parameter to \<^verbatim>\<open>sim.solve\<close>, which evaluates the problem's
  functionals at it (the assembly above).
\<close>

definition solve_update_weights :: "int \<Rightarrow> int \<Rightarrow> real list \<Rightarrow> error + real list" where
  "solve_update_weights XBLOCKS YBLOCKS spins =
     (case ThermalBlockProblem_init (XBLOCKS, YBLOCKS) (PARAM_MIN, PARAM_MAX) () of
        Inl e \<Rightarrow> Inl e
      | Inr problem \<Rightarrow>
          (case solve_update_mu XBLOCKS YBLOCKS spins of
             Inl e \<Rightarrow> Inl e
           | Inr mu \<Rightarrow> assemble (diffusion_functionals problem) mu))"

section \<open>The reduced simulation of the demo (\<^verbatim>\<open>ReducedSim\<close>)\<close>

text \<open>
  The attributes of a \<^verbatim>\<open>ReducedSim\<close> that its methods write: \<^verbatim>\<open>first\<close>, set to
  \<^verbatim>\<open>True\<close> by \<^verbatim>\<open>SimBase.__init__\<close>, and \<^verbatim>\<open>rb_discretization\<close> and \<^verbatim>\<open>reconstructor\<close>,
  which do not exist until \<^verbatim>\<open>_first\<close> assigns them (\<open>None\<close> here). The other attributes
  (\<^verbatim>\<open>args\<close>, \<^verbatim>\<open>problem\<close>, \<^verbatim>\<open>discretization\<close>, \<^verbatim>\<open>grid\<close>) are assigned once by
  \<^verbatim>\<open>__init__\<close> and only read afterwards.
\<close>

record ('rd, 'rc) ReducedSim =
  first :: bool
  rb_discretization :: "'rd option"
  reconstructor :: "'rc option"

definition ReducedSim_init :: "('rd, 'rc) ReducedSim" where
  "ReducedSim_init = \<lparr>first = True, rb_discretization = None, reconstructor = None\<rparr>"

text \<open>
  The calls into the library that \<^verbatim>\<open>ReducedSim\<close> makes, in the order they happen:
  \<^verbatim>\<open>greedy(...)\<close> being entered, \<^verbatim>\<open>greedy(...)\<close> having returned its data, and
  \<^verbatim>\<open>rb_discretization.solve(mu)\<close>.
\<close>

datatype 'mu sim_event = GreedyCalled | GreedyReturned | RbSolve 'mu

text \<open>
  The library behind the reduced model: solving the reduced problem may raise, the
  reconstruction maps its result back.
\<close>

record ('rd, 'rc, 'mu, 'u, 'U) library =
  rb_solve :: "'rd \<Rightarrow> 'mu \<Rightarrow> error + 'u"
  reconstruct :: "'rc \<Rightarrow> 'u \<Rightarrow> 'U"

text \<open>
  \<^verbatim>\<open>ReducedSim._first\<close>. The argument \<open>g\<close> is what the call of \<^verbatim>\<open>greedy\<close> does this
  time: it raises, or it returns the reduced discretization and the reconstructor. An
  exception leaves the method before any attribute is written.
\<close>

definition ReducedSim_first ::
  "error + 'rd \<times> 'rc \<Rightarrow> ('rd, 'rc) ReducedSim
     \<Rightarrow> (error + unit) \<times> ('rd, 'rc) ReducedSim \<times> 'mu sim_event list" where
  "ReducedSim_first g self =
     (case g of
        Inl e \<Rightarrow> (Inl e, self, [GreedyCalled])
      | Inr (rd, rc) \<Rightarrow>
          (Inr (),
           self\<lparr>rb_discretization := Some rd, reconstructor := Some rc, first := False\<rparr>,
           [GreedyCalled, GreedyReturned]))"

text \<open>
  \<^verbatim>\<open>ReducedSim.solve(mu)\<close>: the result, the object afterwards and the library calls made.
  Reading an attribute that was never assigned raises \<^verbatim>\<open>AttributeError\<close>; Python looks
  \<^verbatim>\<open>self.reconstructor\<close> up before it evaluates the argument.
\<close>

definition ReducedSim_solve ::
  "('rd, 'rc, 'mu, 'u, 'U) library \<Rightarrow> error + 'rd \<times> 'rc \<Rightarrow> ('rd, 'rc) ReducedSim \<Rightarrow> 'mu
     \<Rightarrow> (error + 'U) \<times> ('rd, 'rc) ReducedSim \<times> 'mu sim_event list" where
  "ReducedSim_solve lib g self mu =
     (case (if first self then ReducedSim_first g self else (Inr (), self, [])) of
        (Inl e, self', evs) \<Rightarrow> (Inl e, self', evs)
      | (Inr _, self', evs) \<Rightarrow>
          (case reconstructor self' of
             None \<Rightarrow> (Inl AttributeError, self', evs)
           | Some rc \<Rightarrow>
               (case rb_discretization self' of
                  None \<Rightarrow> (Inl AttributeError, self', evs)
                | Some rd \<Rightarrow>
                    (case rb_solve lib rd mu of
                       Inl e \<Rightarrow> (Inl e, self', evs @ [RbSolve mu])
                     | Inr u \<Rightarrow> (Inr (reconstruct lib rc u), self', evs @ [RbSolve mu])))))"

text \<open>
  A session: the calls of \<^verbatim>\<open>solve\<close> one after the other on the same object, each with
  what \<^verbatim>\<open>greedy\<close> would do if it were called then. The results of the calls and the
  library calls of the whole session, in order.
\<close>

fun ReducedSim_session ::
  "('rd, 'rc, 'mu, 'u, 'U) library \<Rightarrow> ('rd, 'rc) ReducedSim \<Rightarrow> ((error + 'rd \<times> 'rc) \<times> 'mu) list
     \<Rightarrow> (error + 'U) list \<times> ('rd, 'rc) ReducedSim \<times> 'mu sim_event list" where
  "ReducedSim_session lib self [] = ([], self, [])"
| "ReducedSim_session lib self ((g, mu) # calls) =
     (case ReducedSim_solve lib g self mu of
        (r, self', evs) \<Rightarrow>
          (case ReducedSim_session lib self' calls of
             (rs, self'', evs') \<Rightarrow> (r # rs, self'', evs @ evs')))"

text \<open>
  The lifecycle read off a sequence of library calls, \<open>built\<close> telling whether the build
  has completed before: the build is entered and completes only while unbuilt, and the
  reduced problem is solved only once built.
\<close>

fun lifecycle :: "bool \<Rightarrow> 'mu sim_event list \<Rightarrow> bool" where
  "lifecycle built [] = True"
| "lifecycle built (GreedyCalled # evs) = (\<not> built \<and> lifecycle built evs)"
| "lifecycle built (GreedyReturned # evs) = (\<not> built \<and> lifecycle True evs)"
| "lifecycle built (RbSolve mu # evs) = (built \<and> lifecycle built evs)"

text \<open>
  What holds of a \<^verbatim>\<open>ReducedSim\<close> between calls: once \<^verbatim>\<open>first\<close> is cleared, both
  attributes exist.
\<close>

definition sim_inv :: "('rd, 'rc) ReducedSim \<Rightarrow> bool" where
  "sim_inv s \<longleftrightarrow> first s \<or> (rb_discretization s \<noteq> None \<and> reconstructor s \<noteq> None)"

section \<open>The 1D demo (\<^verbatim>\<open>pymordemos/cg_oned.py\<close>)\<close>

text \<open>
  The two kinds of parameter functional the demo builds. \<^verbatim>\<open>ProjectionParameterFunctional\<close>
  is given a name and the shape \<open>0\<close> of a scalar; coordinates and name keep their defaults
  (empty here).
\<close>

datatype ParameterFunctional =
    Projection ProjectionParameterFunctional
  | GenericParameterFunctional "Parameter \<Rightarrow> real" ParameterType

text \<open>
  The arguments \<^verbatim>\<open>EllipticProblem\<close> is constructed with. A function on the line is
  modelled on one point, by its value at the coordinate \<^verbatim>\<open>X[..., 0]\<close>.
\<close>

record EllipticProblem =
  ep_domain :: domain_description
  ep_rhs :: "real \<Rightarrow> real"
  ep_diffusion_functions :: "(real \<Rightarrow> real) list"
  ep_diffusion_functionals :: "ParameterFunctional list"
  ep_dirichlet_data :: "real \<Rightarrow> real"
  ep_name :: string

text \<open>
  \<^verbatim>\<open>cg_oned_demo\<close> up to the construction of the problem (lines 37 to 55). The
  \<^verbatim>\<open>assert\<close> statement raises \<^verbatim>\<open>AssertionError\<close> (assertions enabled, the interpreter's
  default); the \<^verbatim>\<open>ValueError\<close> instance is only its argument. \<^verbatim>\<open>eval\<close> looks the formatted
  name up among the local functions and raises \<^verbatim>\<open>NameError\<close> for an unknown name.
\<close>

definition cg_oned_demo_problem :: "int \<Rightarrow> error + EllipticProblem" where
  "cg_oned_demo_problem nrhs =
     (let rhs0 = (\<lambda>X. 1 * 10);
          rhs1 = (\<lambda>X. (X - 0.5) ^ 2 * 1000)
      in if \<not> (0 \<le> nrhs \<and> nrhs \<le> 1) then Inl AssertionError
         else case map_of [(''rhs0'', rhs0), (''rhs1'', rhs1)] (''rhs'' @ str_int nrhs) of
           None \<Rightarrow> Inl NameError
         | Some f \<Rightarrow>
             (let d0 = (\<lambda>X. 1 - X);
                  d1 = (\<lambda>X. X);
                  f0 = Projection \<lparr>component_name = ''diffusionl'', component_shape = [],
                                   coordinates = [], functional_name = []\<rparr>;
                  f1 = GenericParameterFunctional (\<lambda>mu. 1) []
              in Inr \<lparr>ep_domain = LineDomain, ep_rhs = f,
                      ep_diffusion_functions = [d0, d1],
                      ep_diffusion_functionals = [f0, f1],
                      ep_dirichlet_data = (\<lambda>X. 0),
                      ep_name = ''1DProblem''\<rparr>))"

text \<open>
  The whole function as far as this repository determines it: after the problem is built,
  \<^verbatim>\<open>diameter=1 / n\<close> raises \<^verbatim>\<open>ZeroDivisionError\<close> for \<open>n = 0\<close>; discretizing, solving and
  plotting are the library's.
\<close>

definition cg_oned_demo :: "int \<Rightarrow> int \<Rightarrow> error + EllipticProblem" where
  "cg_oned_demo nrhs n =
     (case cg_oned_demo_problem nrhs of
        Inl e \<Rightarrow> Inl e
      | Inr problem \<Rightarrow> if n = 0 then Inl ZeroDivisionError else Inr problem)"

section \<open>The greedy basis construction\<close>























section \<open>Properties of double rounding\<close>

text \<open>
  The exponent search finds the binade of its argument; rounding is monotone, exact on
  the doubles, and off by at most half a spacing. These give the bounds of the blocks.
\<close>

lemma expo_search_props:
  "- 1022 \<le> expo_search n a \<and> expo_search n a \<le> int n - 1022
   \<and> (- 1022 < expo_search n a \<longrightarrow> 2 powi (expo_search n a) \<le> a)
   \<and> (expo_search n a < int n - 1022 \<longrightarrow> a < 2 powi (expo_search n a + 1))"
proof (induction n)
  case 0
  then show ?case by simp
next
  case (Suc n)
  show ?case
  proof (cases "2 powi (int (Suc n) - 1022) \<le> a")
    case True
    then show ?thesis by simp
  next
    case False
    then have e: "expo_search (Suc n) a = expo_search n a" by simp
    have "a < 2 powi (expo_search n a + 1)"
    proof (cases "expo_search n a < int n - 1022")
      case True
      then show ?thesis using Suc.IH by simp
    next
      case False
      then have "expo_search n a = int n - 1022" using Suc.IH by simp
      then show ?thesis using \<open>\<not> 2 powi (int (Suc n) - 1022) \<le> a\<close>
        by (simp add: add.commute)
    qed
    then show ?thesis
      unfolding e using Suc.IH by auto
  qed
qed

lemma expo_search_mono: "a \<le> b \<Longrightarrow> expo_search n a \<le> expo_search n b"
proof (induction n)
  case 0
  then show ?case by simp
next
  case (Suc n)
  show ?case
    using Suc expo_search_props [of n a] by auto
qed

lemma expo_search_eqI:
  assumes "- 1022 \<le> e" and "e \<le> int n - 1022"
    and "- 1022 < e \<longrightarrow> 2 powi e \<le> a" and "a < 2 powi (e + 1)"
  shows "expo_search n a = e"
proof -
  note p = expo_search_props [of n a]
  let ?s = "expo_search n a"
  have "\<not> ?s < e"
  proof
    assume lt: "?s < e"
    then have "a < 2 powi (?s + 1)" using p assms(2) by simp
    also have "\<dots> \<le> 2 powi e"
      using lt by (intro power_int_increasing) simp_all
    finally show False using assms(3) lt p by simp
  qed
  moreover have "\<not> e < ?s"
  proof
    assume lt: "e < ?s"
    then have "2 powi ?s \<le> a" using p assms(1) by simp
    moreover have "2 powi (e + 1) \<le> (2 :: real) powi ?s"
      using lt by (intro power_int_increasing) simp_all
    ultimately show False using assms(4) by simp
  qed
  ultimately show ?thesis by simp
qed

lemma expo_range: "- 1022 \<le> expo x" "expo x \<le> 1023"
  using expo_search_props [of 2045 "\<bar>x\<bar>"] by (simp_all add: expo_def)

lemma expo_lower: "- 1022 < expo x \<Longrightarrow> 2 powi (expo x) \<le> \<bar>x\<bar>"
  using expo_search_props [of 2045 "\<bar>x\<bar>"] by (simp add: expo_def)

lemma expo_upper: "expo x < 1023 \<Longrightarrow> \<bar>x\<bar> < 2 powi (expo x + 1)"
  using expo_search_props [of 2045 "\<bar>x\<bar>"] by (simp add: expo_def)

lemma expo_mono: "\<bar>x\<bar> \<le> \<bar>y\<bar> \<Longrightarrow> expo x \<le> expo y"
  by (simp add: expo_def expo_search_mono)

lemma expo_eqI:
  assumes "- 1022 \<le> e" and "e \<le> 1023"
    and "- 1022 < e \<longrightarrow> 2 powi e \<le> \<bar>x\<bar>" and "\<bar>x\<bar> < 2 powi (e + 1)"
  shows "expo x = e"
  unfolding expo_def using assms by (intro expo_search_eqI) simp_all

lemma ulp_pos: "0 < ulp x"
  by (simp add: ulp_def)

lemma round_half_even_bounds:
  "\<lfloor>r\<rfloor> \<le> round_half_even r" "round_half_even r \<le> \<lfloor>r\<rfloor> + 1"
  by (simp_all add: round_half_even_def Let_def)

lemma round_half_even_of_int [simp]: "round_half_even (of_int n) = n"
  by (simp add: round_half_even_def)

lemma round_half_even_mono:
  assumes "r \<le> s"
  shows "round_half_even r \<le> round_half_even s"
proof (cases "\<lfloor>r\<rfloor> = \<lfloor>s\<rfloor>")
  case True
  then show ?thesis
    using assms by (auto simp: round_half_even_def Let_def)
next
  case False
  then have "\<lfloor>r\<rfloor> + 1 \<le> \<lfloor>s\<rfloor>"
    using floor_mono [OF assms] by simp
  then show ?thesis
    using round_half_even_bounds(2) [of r] round_half_even_bounds(1) [of s] by linarith
qed

lemma round_half_even_error: "\<bar>of_int (round_half_even r) - r\<bar> \<le> 1 / 2"
proof -
  have "of_int \<lfloor>r\<rfloor> \<le> r" "r < of_int \<lfloor>r\<rfloor> + 1" by linarith+
  then show ?thesis
    by (auto simp: round_half_even_def Let_def abs_le_iff)
qed

lemma round_half_even_ge: "of_int n \<le> r \<Longrightarrow> n \<le> round_half_even r"
  using round_half_even_mono [of "of_int n" r] by simp

lemma round_half_even_le: "r \<le> of_int n \<Longrightarrow> round_half_even r \<le> n"
  using round_half_even_mono [of r "of_int n"] by simp

lemma fl_0 [simp]: "fl 0 = 0"
  by (simp add: fl_def round_half_even_def)

lemma pow2_ulp: "(2 :: real) powi (expo x + k) = 2 powi (k + 52) * ulp x"
proof -
  have "(2 :: real) powi (k + 52) * 2 powi (expo x - 52) = 2 powi ((k + 52) + (expo x - 52))"
    by (rule power_int_add [symmetric]) simp
  also have "(k + 52) + (expo x - 52) = expo x + k" by simp
  finally show ?thesis by (simp add: ulp_def)
qed

lemma fl_nonneg: "0 \<le> x \<Longrightarrow> 0 \<le> fl x"
proof -
  assume "0 \<le> x"
  then have "of_int 0 \<le> x / ulp x" using ulp_pos [of x] by simp
  then have "0 \<le> round_half_even (x / ulp x)" by (rule round_half_even_ge)
  then show ?thesis using ulp_pos [of x] by (simp add: fl_def)
qed

lemma fl_le_binade:
  assumes "0 \<le> x" and "expo x < 1023"
  shows "fl x \<le> 2 powi (expo x + 1)"
proof -
  have "x < 2 powi (expo x + 1)" using expo_upper [OF assms(2)] assms(1) by simp
  also have "(2 :: real) powi (expo x + 1) = 2 powi 53 * ulp x"
    using pow2_ulp [of x 1] by simp
  finally have "x / ulp x \<le> of_int (2 ^ 53)"
    using ulp_pos [of x] by (simp add: pos_divide_le_eq)
  then have "round_half_even (x / ulp x) \<le> 2 ^ 53" by (rule round_half_even_le)
  then have "of_int (round_half_even (x / ulp x)) * ulp x \<le> of_int (2 ^ 53) * ulp x"
    using ulp_pos [of x] by (intro mult_right_mono) (simp_all del: of_int_power)
  also have "\<dots> = 2 powi (expo x + 1)"
    using pow2_ulp [of x 1] by simp
  finally show ?thesis by (simp add: fl_def)
qed

lemma fl_ge_binade:
  assumes "0 \<le> x" and "- 1022 < expo x"
  shows "2 powi (expo x) \<le> fl x"
proof -
  have e: "(2 :: real) powi (expo x) = 2 powi 52 * ulp x"
    using pow2_ulp [of x 0] by simp
  have "2 powi (expo x) \<le> x" using expo_lower [OF assms(2)] assms(1) by simp
  then have "of_int (2 ^ 52) \<le> x / ulp x"
    unfolding e using ulp_pos [of x] by (simp add: pos_le_divide_eq)
  then have "2 ^ 52 \<le> round_half_even (x / ulp x)" by (rule round_half_even_ge)
  then have "of_int (2 ^ 52) * ulp x \<le> of_int (round_half_even (x / ulp x)) * ulp x"
    using ulp_pos [of x] by (intro mult_right_mono) (simp_all del: of_int_power)
  then show ?thesis unfolding e by (simp add: fl_def)
qed

lemma fl_mono:
  assumes "0 \<le> x" and "x \<le> y"
  shows "fl x \<le> fl y"
proof (cases "expo x = expo y")
  case True
  then have u: "ulp x = ulp y" by (simp add: ulp_def)
  have "x / ulp y \<le> y / ulp y"
    using assms(2) ulp_pos [of y] by (simp add: divide_right_mono)
  then have "round_half_even (x / ulp y) \<le> round_half_even (y / ulp y)"
    by (rule round_half_even_mono)
  then show ?thesis
    using ulp_pos [of y] by (simp add: fl_def u mult_right_mono)
next
  case False
  have "expo x \<le> expo y" using assms by (intro expo_mono) simp
  then have lt: "expo x < expo y" using False by simp
  have "fl x \<le> 2 powi (expo x + 1)"
    using lt expo_range(2) [of y] by (intro fl_le_binade assms(1)) simp
  also have "\<dots> \<le> 2 powi (expo y)"
    using lt by (intro power_int_increasing) simp_all
  also have "\<dots> \<le> fl y"
    using lt expo_range(1) [of x] assms by (intro fl_ge_binade) simp_all
  finally show ?thesis .
qed

lemma fl_error:
  "\<bar>fl x - x\<bar> \<le> ulp x / 2"
proof -
  have "fl x - x = (of_int (round_half_even (x / ulp x)) - x / ulp x) * ulp x"
    using ulp_pos [of x] by (simp add: fl_def field_simps)
  then have "\<bar>fl x - x\<bar> = \<bar>of_int (round_half_even (x / ulp x)) - x / ulp x\<bar> * ulp x"
    using ulp_pos [of x] by (simp add: abs_mult)
  also have "\<dots> \<le> 1 / 2 * ulp x"
    using ulp_pos [of x] round_half_even_error [of "x / ulp x"]
    by (intro mult_right_mono) simp_all
  finally show ?thesis by simp
qed

lemma fl_relative_error:
  assumes "- 1022 < expo x"
  shows "\<bar>fl x - x\<bar> \<le> \<bar>x\<bar> / 2 ^ 53"
proof -
  have "ulp x = 2 powi (expo x) / 2 ^ 52"
    by (simp add: ulp_def power_int_diff)
  also have "\<dots> \<le> \<bar>x\<bar> / 2 ^ 52"
    using expo_lower [OF assms] by (simp add: divide_right_mono)
  finally have "ulp x / 2 \<le> \<bar>x\<bar> / 2 ^ 53" by simp
  then show ?thesis using fl_error [of x] by linarith
qed

lemma fl_exact:
  assumes "x = of_int n * ulp x"
  shows "fl x = x"
proof -
  have "x / ulp x = of_int n" using assms ulp_pos [of x] by (simp add: field_simps)
  then show ?thesis using assms by (simp add: fl_def)
qed

lemma expo_less:
  assumes "\<bar>x\<bar> < 2 powi k" and "- 1022 < k"
  shows "expo x < k"
proof (rule ccontr)
  assume "\<not> expo x < k"
  then have le: "k \<le> expo x" by simp
  then have "2 powi (expo x) \<le> \<bar>x\<bar>" using assms(2) by (intro expo_lower) simp
  moreover have "(2 :: real) powi k \<le> 2 powi (expo x)"
    using le by (intro power_int_increasing) simp_all
  ultimately show False using assms(1) by simp
qed

lemma expo_ge:
  assumes "2 powi k \<le> \<bar>x\<bar>" and "k \<le> 1023"
  shows "k \<le> expo x"
proof (rule ccontr)
  assume "\<not> k \<le> expo x"
  then have lt: "expo x < k" by simp
  then have "\<bar>x\<bar> < 2 powi (expo x + 1)" using assms(2) by (intro expo_upper) simp
  also have "\<dots> \<le> 2 powi k"
    using lt by (intro power_int_increasing) simp_all
  finally show False using assms(1) by simp
qed

lemma fl_eval:
  assumes "- 1022 \<le> e" and "e \<le> 1023"
    and "- 1022 < e \<longrightarrow> 2 powi e \<le> \<bar>x\<bar>" and "\<bar>x\<bar> < 2 powi (e + 1)"
    and "round_half_even (x / 2 powi (e - 52)) = m"
  shows "fl x = of_int m * 2 powi (e - 52)"
proof -
  have "expo x = e" using assms(1-4) by (rule expo_eqI)
  then show ?thesis using assms(5) by (simp add: fl_def ulp_def)
qed

lemma fl_of_int:
  assumes "0 \<le> n" and "n \<le> 2 ^ 53"
  shows "fl (of_int n) = of_int n"
proof (cases "n = 2 ^ 53")
  case True
  have "fl (2 ^ 53) = of_int (2 ^ 52) * 2 powi (53 - 52)"
    by (rule fl_eval) (simp_all add: round_half_even_def)
  then show ?thesis using True by simp
next
  case False
  then have "n < 2 ^ 53" using assms(2) by simp
  then have "real_of_int n < 2 ^ 53"
    by (metis of_int_less_iff of_int_numeral of_int_power)
  then have "\<bar>real_of_int n\<bar> < 2 powi 53"
    using assms(1) by simp
  then have "expo (of_int n) < 53" by (rule expo_less) simp
  then obtain m where m: "52 - expo (of_int n) = int m"
    using nonneg_int_cases [of "52 - expo (of_int n)"] by auto
  have "expo (of_int n) - 52 = - int m" using m by simp
  then have "ulp (of_int n) = 1 / 2 ^ m"
    by (simp add: ulp_def power_int_minus_divide)
  then have "real_of_int n = of_int (n * 2 ^ m) * ulp (of_int n)"
    by simp
  then show ?thesis by (rule fl_exact)
qed

lemma fl_1 [simp]: "fl 1 = 1"
  using fl_of_int [of 1] by simp

lemma fl_below_one: "fl (1 - 1 / 2 ^ 53) = 1 - 1 / 2 ^ 53"
proof -
  have "fl (1 - 1 / 2 ^ 53) = of_int (2 ^ 53 - 1) * 2 powi (- 1 - 52)"
    by (rule fl_eval) (simp_all add: round_half_even_def power_int_minus_divide)
  then show ?thesis by (simp add: power_int_minus_divide)
qed

lemma fl_above_one: "fl (1 + 1 / 2 ^ 53) = 1"
proof -
  have "fl (1 + 1 / 2 ^ 53) = of_int (2 ^ 52) * 2 powi (0 - 52)"
    by (rule fl_eval) (simp_all add: round_half_even_def power_int_minus_divide)
  then show ?thesis by (simp add: power_int_minus_divide)
qed

lemma fl_reciprocal:
  assumes "0 < n" and "n \<le> 2 ^ 53"
  shows "\<bar>fl (1 / of_int n) - 1 / of_int n\<bar> \<le> (1 / of_int n) / 2 ^ 53"
    and "1 / 2 ^ 54 \<le> fl (1 / of_int n)" and "fl (1 / of_int n) \<le> 1"
proof -
  let ?x = "1 / real_of_int n"
  have n: "1 \<le> real_of_int n" "real_of_int n \<le> 2 ^ 53"
    using assms by (simp, metis of_int_le_iff of_int_numeral of_int_power)
  then have x: "1 / 2 ^ 53 \<le> ?x" "?x \<le> 1"
    by (simp_all add: field_simps)
  have "2 powi (- 53) \<le> \<bar>?x\<bar>"
    using x(1) n(1) by (simp add: power_int_minus_divide)
  then have "- 53 \<le> expo ?x" by (rule expo_ge) simp
  then have "\<bar>fl ?x - ?x\<bar> \<le> \<bar>?x\<bar> / 2 ^ 53"
    by (intro fl_relative_error) simp
  then show e: "\<bar>fl ?x - ?x\<bar> \<le> ?x / 2 ^ 53"
    using n(1) by simp
  have "?x - ?x / 2 ^ 53 \<le> fl ?x" using e by linarith
  moreover have "1 / 2 ^ 54 \<le> ?x - ?x / 2 ^ 53"
  proof -
    have "?x - ?x / 2 ^ 53 = ?x * (1 - 1 / 2 ^ 53)" by (simp add: algebra_simps)
    moreover have "1 / 2 ^ 53 * (1 / 2) \<le> ?x * (1 - 1 / 2 ^ 53)"
      using x(1) n(1) by (intro mult_mono) simp_all
    ultimately show ?thesis by simp
  qed
  ultimately show "1 / 2 ^ 54 \<le> fl ?x" by linarith
  show "fl ?x \<le> 1"
    using fl_mono [of ?x 1] x(2) n(1) by simp
qed

lemma bound_0 [simp]: "bound 0 n = 0"
  by (simp add: bound_def)

lemma bound_mono:
  assumes "0 < n" and "n \<le> 2 ^ 53" and "0 \<le> j" and "j \<le> k"
  shows "bound j n \<le> bound k n"
proof -
  have d: "0 \<le> fl (1 / of_int n)"
    using fl_reciprocal(2) [OF assms(1,2)] by simp
  have "real_of_int j * fl (1 / of_int n) \<le> real_of_int k * fl (1 / of_int n)"
    using assms(4) d by (intro mult_right_mono) simp_all
  moreover have "0 \<le> real_of_int j * fl (1 / of_int n)"
    using assms(3) d by simp
  ultimately show ?thesis
    unfolding bound_def by (intro fl_mono)
qed

lemma bound_nonneg:
  assumes "0 < n" and "n \<le> 2 ^ 53" and "0 \<le> k"
  shows "0 \<le> bound k n"
  using bound_mono [OF assms(1,2), of 0 k] assms(3) by simp

lemma bound_error:
  assumes "0 < n" and "n \<le> 2 ^ 53" and "0 \<le> k" and "k \<le> n"
  shows "\<bar>bound k n - of_int k / of_int n\<bar> \<le> (of_int k / of_int n) / 2 ^ 51"
proof (cases "k = 0")
  case True
  then show ?thesis by simp
next
  case False
  define d where "d = fl (1 / real_of_int n)"
  define q where "q = real_of_int k / real_of_int n"
  define x where "x = real_of_int k * d"
  have k: "1 \<le> real_of_int k" using False assms(3) by simp
  have n: "0 < real_of_int n" using assms(1) by simp
  have q: "0 < q" using k n by (simp add: q_def)
  note r = fl_reciprocal [OF assms(1,2), folded d_def]
  have "x - q = real_of_int k * (d - 1 / real_of_int n)"
    by (simp add: x_def q_def algebra_simps)
  then have "\<bar>x - q\<bar> = real_of_int k * \<bar>d - 1 / real_of_int n\<bar>"
    using k by (simp add: abs_mult)
  also have "\<dots> \<le> real_of_int k * ((1 / real_of_int n) / 2 ^ 53)"
    using k r(1) by (intro mult_left_mono) simp_all
  finally have xq: "\<bar>x - q\<bar> \<le> q / 2 ^ 53" by (simp add: q_def)
  have "1 / 2 ^ 54 \<le> 1 * d" using r(2) by simp
  also have "\<dots> \<le> x" unfolding x_def using k r(2) by (intro mult_right_mono) simp_all
  finally have "2 powi (- 54) \<le> \<bar>x\<bar>"
    by (simp add: power_int_minus_divide)
  then have "- 54 \<le> expo x" by (rule expo_ge) simp
  then have fx: "\<bar>fl x - x\<bar> \<le> \<bar>x\<bar> / 2 ^ 53"
    by (intro fl_relative_error) simp
  have "\<bar>x\<bar> \<le> q + q / 2 ^ 53" using xq q by linarith
  then have "\<bar>x\<bar> / 2 ^ 53 \<le> (q + q / 2 ^ 53) / 2 ^ 53"
    by (simp add: divide_right_mono)
  then have "\<bar>fl x - q\<bar> \<le> (q + q / 2 ^ 53) / 2 ^ 53 + q / 2 ^ 53"
    using xq fx by linarith
  also have "\<dots> = q * ((1 + 1 / 2 ^ 53) / 2 ^ 53 + 1 / 2 ^ 53)"
    by (simp add: algebra_simps)
  also have "\<dots> \<le> q * (1 / 2 ^ 51)"
    using q by (intro mult_left_mono) simp_all
  finally show ?thesis by (simp add: bound_def x_def d_def q_def)
qed

lemma bound_top:
  assumes "0 < n" and "n \<le> 2 ^ 53"
  shows "1 - 1 / 2 ^ 53 \<le> bound n n" and "bound n n \<le> 1"
proof -
  let ?d = "fl (1 / real_of_int n)"
  have n: "0 < real_of_int n" using assms(1) by simp
  note r = fl_reciprocal [OF assms]
  have "real_of_int n * ?d - 1 = real_of_int n * (?d - 1 / real_of_int n)"
    using n by (simp add: algebra_simps)
  then have "\<bar>real_of_int n * ?d - 1\<bar> = real_of_int n * \<bar>?d - 1 / real_of_int n\<bar>"
    using n by (simp add: abs_mult)
  also have "\<dots> \<le> real_of_int n * ((1 / real_of_int n) / 2 ^ 53)"
    using n r(1) by (intro mult_left_mono) simp_all
  also have "\<dots> = 1 / 2 ^ 53" using n by simp
  finally have x: "1 - 1 / 2 ^ 53 \<le> real_of_int n * ?d" "real_of_int n * ?d \<le> 1 + 1 / 2 ^ 53"
    by linarith+
  have "fl (1 - 1 / 2 ^ 53) \<le> bound n n"
    unfolding bound_def using x(1) by (intro fl_mono) simp_all
  then show "1 - 1 / 2 ^ 53 \<le> bound n n" by (simp only: fl_below_one)
  have "0 \<le> real_of_int n * ?d" using x(1) by simp
  then have "bound n n \<le> fl (1 + 1 / 2 ^ 53)"
    unfolding bound_def using x(2) by (intro fl_mono)
  then show "bound n n \<le> 1" by (simp only: fl_above_one)
qed

lemma fl_49th: "fl (1 / 49) = 5882252574524729 / 2 ^ 58"
proof -
  have "fl (1 / 49) = of_int 5882252574524729 * 2 powi (- 6 - 52)"
    by (rule fl_eval) (simp_all add: round_half_even_def power_int_minus_divide)
  then show ?thesis by (simp add: power_int_minus_divide)
qed

lemma bound_49_49: "bound 49 49 = 1 - 1 / 2 ^ 53"
proof -
  have "fl (49 * (5882252574524729 / 2 ^ 58)) = of_int (2 ^ 53 - 1) * 2 powi (- 1 - 52)"
    by (rule fl_eval) (simp_all add: round_half_even_def power_int_minus_divide)
  then show ?thesis
    by (simp add: bound_def fl_49th power_int_minus_divide)
qed

lemma bound_1_1: "bound 1 1 = 1"
  by (simp add: bound_def)

lemma not_overflows:
  assumes "0 \<le> fl x" and "fl x \<le> 2 ^ 53"
  shows "\<not> overflows x"
proof -
  have "(2 :: real) ^ 53 < 2 ^ 1024" by simp
  then show ?thesis using assms by (simp add: overflows_def)
qed

lemma float_of_int_exact:
  assumes "0 \<le> k" and "k \<le> 2 ^ 53"
  shows "float_of_int k = Inr (of_int k)"
proof -
  have f: "fl (of_int k) = of_int k" using assms by (rule fl_of_int)
  have "real_of_int k \<le> 2 ^ 53"
    using assms(2) by (metis of_int_le_iff of_int_numeral of_int_power)
  then have "\<not> overflows (of_int k)"
    using assms(1) by (intro not_overflows) (simp_all add: f)
  then show ?thesis by (simp add: float_of_int_def f)
qed

lemma true_divide_positive:
  assumes "0 < n"
  shows "true_divide 1 n = Inr (fl (1 / of_int n))"
proof -
  have n: "1 \<le> real_of_int n" using assms by simp
  have "0 \<le> fl (1 / of_int n)" by (intro fl_nonneg) (use n in simp)
  moreover have "fl (1 / of_int n) \<le> fl 1"
    using n by (intro fl_mono) simp_all
  ultimately have "\<not> overflows (1 / of_int n)"
    by (intro not_overflows) simp_all
  then show ?thesis using assms by (simp add: true_divide_def)
qed

lemma bound_le_1:
  assumes "0 < n" and "n \<le> 2 ^ 53" and "0 \<le> k" and "k \<le> n"
  shows "bound k n \<le> 1"
  using bound_mono [OF assms(1,2,3,4)] bound_top(2) [OF assms(1,2)] by simp

lemma float_mul_bound:
  assumes "0 < n" and "n \<le> 2 ^ 53" and "0 \<le> k" and "k \<le> n"
  shows "float_mul (of_int k) (fl (1 / of_int n)) = Finite (bound k n)"
proof -
  have "0 \<le> bound k n" using assms(1,2,3) by (rule bound_nonneg)
  moreover have "bound k n \<le> 1" using assms by (rule bound_le_1)
  ultimately have "\<not> overflows (of_int k * fl (1 / of_int n))"
    by (intro not_overflows) (simp_all add: bound_def)
  then show ?thesis by (simp add: float_mul_def bound_def)
qed

lemma fl_half: "fl (1 / 2) = 1 / 2"
proof -
  have "fl (1 / 2) = of_int (2 ^ 52) * 2 powi (- 1 - 52)"
    by (rule fl_eval) (simp_all add: round_half_even_def power_int_minus_divide)
  then show ?thesis by (simp add: power_int_minus_divide)
qed

lemma bound_halves: "bound 0 2 = 0" "bound 1 2 = 1 / 2" "bound 2 2 = 1"
  by (simp_all add: bound_def fl_half)

lemma fl_3rd: "fl (1 / 3) = 6004799503160661 / 2 ^ 54"
proof -
  have "fl (1 / 3) = of_int 6004799503160661 * 2 powi (- 2 - 52)"
    by (rule fl_eval) (simp_all add: round_half_even_def power_int_minus_divide)
  then show ?thesis by (simp add: power_int_minus_divide)
qed

lemma bound_2_3: "bound 2 3 = 6004799503160661 / 2 ^ 53"
proof -
  have "fl (2 * (6004799503160661 / 2 ^ 54)) = of_int 6004799503160661 * 2 powi (- 1 - 52)"
    by (rule fl_eval) (simp_all add: round_half_even_def power_int_minus_divide)
  then show ?thesis
    by (simp add: bound_def fl_3rd power_int_minus_divide)
qed

lemma bound_3_3: "bound 3 3 = 1"
proof -
  have "fl (3 * (6004799503160661 / 2 ^ 54)) = of_int (2 ^ 53) * 2 powi (- 1 - 52)"
    by (rule fl_eval) (simp_all add: round_half_even_def power_int_minus_divide)
  then show ?thesis
    by (simp add: bound_def fl_3rd power_int_minus_divide)
qed

section \<open>Properties of the thermal block problem\<close>

lemma nth_itertools_product:
  assumes "k < length xs * length ys" and "ys \<noteq> []"
  shows "itertools_product xs ys ! k = (xs ! (k div length ys), ys ! (k mod length ys))"
  using assms
proof (induction xs arbitrary: k)
  case Nil
  then show ?case by simp
next
  case (Cons x xs)
  show ?case
  proof (cases "k < length ys")
    case True
    then show ?thesis by (simp add: itertools_product_def nth_append)
  next
    case False
    then have k: "k - length ys < length xs * length ys"
      using Cons.prems by simp
    have d: "k div length ys = Suc ((k - length ys) div length ys)"
      using False Cons.prems(2) by (simp add: le_div_geq)
    have m: "k mod length ys = (k - length ys) mod length ys"
      using False by (simp add: le_mod_geq)
    have "itertools_product (x # xs) ys ! k = itertools_product xs ys ! (k - length ys)"
      using False by (simp add: itertools_product_def nth_append)
    also have "\<dots> = (xs ! ((k - length ys) div length ys), ys ! ((k - length ys) mod length ys))"
      using Cons.IH [OF k Cons.prems(2)] .
    finally show ?thesis
      by (simp add: d m)
  qed
qed

lemma length_itertools_product:
  "length (itertools_product xs ys) = length xs * length ys"
  by (induction xs) (simp_all add: itertools_product_def)

lemma length_xrange: "length (xrange n) = nat n"
  by (simp add: xrange_def)

lemma nth_xrange: "k < nat n \<Longrightarrow> xrange n ! k = int k"
  by (simp add: xrange_def)

lemma init_positive:
  assumes "0 < nx" and "0 < ny"
  shows "ThermalBlockProblem_init (nx, ny) prange f =
     Inr \<lparr>domain = RectDomain, rhs = f,
          diffusion_functions =
            map (\<lambda>(x, y). \<lparr>block_x = x, block_y = y,
                            block_dx = fl (1 / real_of_int nx), block_dy = fl (1 / real_of_int ny)\<rparr>)
                (itertools_product (xrange nx) (xrange ny)),
          diffusion_functionals =
            map (\<lambda>(x, y). parameter_functional_factory (nx, ny) x y)
                (itertools_product (xrange nx) (xrange ny)),
          problem_name = ''ThermalBlock'',
          parameter_space = \<lparr>parameter_type = [(''diffusion'', [ny, nx])],
                             minimum = fst prange, maximum = snd prange\<rparr>,
          parameter_range = prange,
          num_blocks = (nx, ny)\<rparr>"
  using true_divide_positive [OF assms(1)] true_divide_positive [OF assms(2)]
  by (simp add: ThermalBlockProblem_init_def Let_def)

lemma nth_blocks:
  assumes "0 < nx" and "0 < ny" and "k < nat (nx * ny)"
  shows "itertools_product (xrange nx) (xrange ny) ! k = (int (k div nat ny), int (k mod nat ny))"
proof -
  have k: "k < length (xrange nx) * length (xrange ny)"
    using assms by (simp add: length_xrange nat_mult_distrib)
  have ne: "xrange ny \<noteq> []"
    using assms(2) by (simp add: xrange_def)
  have d: "k div nat ny < nat nx"
    using assms by (simp add: nat_mult_distrib less_mult_imp_div_less)
  have m: "k mod nat ny < nat ny"
    using assms(2) by simp
  show ?thesis
    using nth_itertools_product [OF k ne] d m by (simp add: length_xrange nth_xrange)
qed

lemma length_blocks:
  "0 < nx \<Longrightarrow> 0 < ny \<Longrightarrow> length (itertools_product (xrange nx) (xrange ny)) = nat (nx * ny)"
  by (simp add: length_itertools_product length_xrange nat_mult_distrib)

text \<open>
  Claim C5. For positive block counts the constructor succeeds and builds exactly
  \<open>nx * ny\<close> diffusion functions and exactly \<open>nx * ny\<close> parameter functionals. Both tuples
  follow the same enumeration, the product of \<open>0..nx-1\<close> with \<open>0..ny-1\<close> (the y index
  varying fastest), so the k-th function and the k-th functional belong to the same block
  \<open>(k div ny, k mod ny)\<close>. The two tuples are fields of the problem value; no operation of
  the model changes them afterwards.
\<close>

theorem construction_order:
  assumes "0 < nx" and "0 < ny"
  shows "\<exists>problem. ThermalBlockProblem_init (nx, ny) prange f = Inr problem
     \<and> length (diffusion_functions problem) = nat (nx * ny)
     \<and> length (diffusion_functionals problem) = nat (nx * ny)
     \<and> map (\<lambda>g. (block_x g, block_y g)) (diffusion_functions problem)
         = itertools_product (xrange nx) (xrange ny)
     \<and> (\<forall>k < nat (nx * ny).
           (block_x (diffusion_functions problem ! k), block_y (diffusion_functions problem ! k))
             = (int (k div nat ny), int (k mod nat ny))
         \<and> diffusion_functionals problem ! k
             = parameter_functional_factory (nx, ny)
                 (block_x (diffusion_functions problem ! k))
                 (block_y (diffusion_functions problem ! k)))"
proof -
  let ?bs = "itertools_product (xrange nx) (xrange ny)"
  have len: "length ?bs = nat (nx * ny)"
    using assms by (rule length_blocks)
  have m: "map (\<lambda>g. (block_x g, block_y g))
             (map (\<lambda>(x, y). \<lparr>block_x = x, block_y = y,
                    block_dx = fl (1 / real_of_int nx), block_dy = fl (1 / real_of_int ny)\<rparr>) ?bs) = ?bs"
    by (simp add: case_prod_unfold comp_def)
  show ?thesis
    unfolding init_positive [OF assms]
    using len m nth_blocks [OF assms]
    by (auto simp: case_prod_unfold)
qed

theorem construction_order_witness:
  "\<exists>problem. ThermalBlockProblem_init (2, 3) (0.1, 1) () = Inr problem
     \<and> length (diffusion_functions problem) = 6
     \<and> length (diffusion_functionals problem) = 6
     \<and> diffusion_functionals problem ! 4
         = parameter_functional_factory (2, 3)
             (block_x (diffusion_functions problem ! 4))
             (block_y (diffusion_functions problem ! 4))"
  using construction_order [of 2 3 "(0.1, 1)" "()"]
  by auto

text \<open>
  Claim C1. The functional built for block \<open>(i, j)\<close> of an \<open>nx\<close>-by-\<open>ny\<close> problem names the
  component \<open>diffusion\<close> and the coordinates \<open>(ny - 1 - j, i)\<close>; for the 2-by-2 problem the
  functional of block \<open>(x = 1, y = 0)\<close> has coordinates \<open>(1, 1)\<close>.
\<close>

theorem block_index_convention:
  "component_name (parameter_functional_factory (nx, ny) i j) = ''diffusion'' \<and>
   coordinates (parameter_functional_factory (nx, ny) i j) = [ny - 1 - j, i] \<and>
   coordinates (parameter_functional_factory (2, 2) 1 0) = [1, 1]"
  by (simp add: parameter_functional_factory_def)

text \<open>
  With the reading of a projection functional taken from the specification, the
  functional of block \<open>(i, j)\<close> returns the entry of \<open>diffusion\<close> in row \<open>ny - 1 - j\<close> and
  column \<open>i\<close> of a parameter of the declared shape.
\<close>

lemma block_functional_reads:
  assumes "0 \<le> i" and "i < nx" and "0 \<le> j" and "j < ny"
    and "mu ''diffusion'' = Some a" and "shape a = [ny, nx]"
    and "length (data a) = nat (ny * nx)"
  shows "functional_evaluate (parameter_functional_factory (nx, ny) i j) mu
           = Inr (data a ! (nat (ny - 1 - j) * nat nx + nat i))"
proof -
  have "nat (ny - j - 1) * nat nx + nat i < nat ny * nat nx"
  proof -
    have "Suc (nat (ny - j - 1)) \<le> nat ny" using assms(3,4) by simp
    then have "Suc (nat (ny - j - 1)) * nat nx \<le> nat ny * nat nx"
      by (rule mult_le_mono1)
    then have "nat (ny - j - 1) * nat nx + nat nx \<le> nat ny * nat nx"
      by simp
    moreover have "nat i < nat nx" using assms(1,2) by simp
    ultimately show ?thesis by linarith
  qed
  then have "nat (ny - j - 1) * nat nx + nat i < length (data a)"
    using assms(2,4,7) assms(1,3) by (simp add: nat_mult_distrib)
  moreover have e: "ny - 1 - j = ny - j - 1" by simp
  ultimately show ?thesis
    unfolding e using assms
    by (simp add: functional_evaluate_def parameter_functional_factory_def matches_type_def
        functional_parameter_type_def)
qed

text \<open>
  The value of a block function of a problem with at most \<open>2\<^sup>5\<^sup>3\<close> blocks in each
  direction: the integers convert exactly and no product overflows.
\<close>

lemma evaluate_block:
  assumes "0 < nx" and "nx \<le> 2 ^ 53" and "0 < ny" and "ny \<le> 2 ^ 53"
    and "0 \<le> x" and "x < nx" and "0 \<le> y" and "y < ny"
  shows "evaluate \<lparr>block_x = x, block_y = y,
                   block_dx = fl (1 / real_of_int nx), block_dy = fl (1 / real_of_int ny)\<rparr> p mu
         = Inr (of_bool (bound x nx \<le> fst p \<and> fst p < bound (x + 1) nx
                       \<and> bound y ny \<le> snd p \<and> snd p < bound (y + 1) ny))"
proof -
  have c: "float_of_int x = Inr (of_int x)" "float_of_int (x + 1) = Inr (of_int (x + 1))"
    "float_of_int y = Inr (of_int y)" "float_of_int (y + 1) = Inr (of_int (y + 1))"
    by (rule float_of_int_exact; use assms in simp)+
  have m: "float_mul (of_int x) (fl (1 / of_int nx)) = Finite (bound x nx)"
    "float_mul (of_int (x + 1)) (fl (1 / of_int nx)) = Finite (bound (x + 1) nx)"
    "float_mul (of_int y) (fl (1 / of_int ny)) = Finite (bound y ny)"
    "float_mul (of_int (y + 1)) (fl (1 / of_int ny)) = Finite (bound (y + 1) ny)"
    by (rule float_mul_bound; use assms in simp)+
  show ?thesis
    by (simp add: evaluate_def c m del: of_int_add)
qed

lemma evaluate_all_values:
  assumes "\<And>g. g \<in> set gs \<Longrightarrow> evaluate g X mu = Inr (v g)"
  shows "evaluate_all gs X mu = Inr (map v gs)"
  using assms by (induction gs) simp_all

text \<open>
  The computed bounds of one direction increase with the block index, so a coordinate
  between the first and the last of them lies in exactly one of the half-open intervals.
\<close>

lemma monotone_bounds_interval:
  fixes b :: "nat \<Rightarrow> real"
  assumes mono: "\<And>i j. i \<le> j \<Longrightarrow> j \<le> n \<Longrightarrow> b i \<le> b j"
    and lo: "b 0 \<le> p" and hi: "p < b n"
  shows "\<exists>!k. k < n \<and> b k \<le> p \<and> p < b (Suc k)"
proof -
  define K where "K = (LEAST j. p < b j)"
  have K: "p < b K" unfolding K_def using hi by (rule LeastI)
  have Kn: "K \<le> n" unfolding K_def using hi by (rule Least_le)
  have K0: "K \<noteq> 0" using K lo by (cases "K = 0") auto
  then obtain k where k: "K = Suc k" by (cases K) auto
  have "\<not> p < b k"
    using not_less_Least [of k "\<lambda>j. p < b j"] k by (simp add: K_def)
  then have ex: "k < n \<and> b k \<le> p \<and> p < b (Suc k)"
    using K Kn k by simp
  show ?thesis
  proof (rule ex1I [of _ k])
    show "k < n \<and> b k \<le> p \<and> p < b (Suc k)" by (rule ex)
  next
    fix j assume j: "j < n \<and> b j \<le> p \<and> p < b (Suc j)"
    show "j = k"
    proof (rule ccontr)
      assume "j \<noteq> k"
      then consider "j < k" | "k < j" by linarith
      then show False
      proof cases
        case 1
        then have "b (Suc j) \<le> b k" using ex by (intro mono) simp_all
        then show False using j ex by simp
      next
        case 2
        then have "b (Suc k) \<le> b j" using j by (intro mono) simp_all
        then show False using j ex by simp
      qed
    qed
  qed
qed

lemma block_interval:
  assumes "0 < n" and "n \<le> 2 ^ 53" and "0 \<le> p" and "p < bound n n"
  shows "\<exists>!k. k < nat n \<and> bound (int k) n \<le> p \<and> p < bound (int k + 1) n"
proof -
  have "\<exists>!k. k < nat n \<and> bound (int k) n \<le> p \<and> p < bound (int (Suc k)) n"
  proof (rule monotone_bounds_interval)
    show "bound (int i) n \<le> bound (int j) n" if "i \<le> j" "j \<le> nat n" for i j
      using that assms(1,2) by (intro bound_mono) simp_all
    show "bound (int 0) n \<le> p" using assms(3) by simp
    show "p < bound (int (nat n)) n" using assms(1,4) by simp
  qed
  then show ?thesis by (simp add: add.commute)
qed

lemma no_block_outside:
  assumes "0 < n" and "n \<le> 2 ^ 53" and "p < 0 \<or> bound n n \<le> p" and "0 \<le> k" and "k < n"
  shows "\<not> (bound k n \<le> p \<and> p < bound (k + 1) n)"
proof -
  have "0 \<le> bound k n" using assms(1,2,4) by (rule bound_nonneg)
  moreover have "bound (k + 1) n \<le> bound n n"
    using assms by (intro bound_mono) simp_all
  ultimately show ?thesis using assms(3) by auto
qed

lemma sum_list_unique_one:
  assumes "k < length vs" and "vs ! k = (1::real)"
    and "\<And>j. j < length vs \<Longrightarrow> j \<noteq> k \<Longrightarrow> vs ! j = 0"
  shows "sum_list vs = 1"
  using assms
proof (induction vs arbitrary: k)
  case Nil
  then show ?case by simp
next
  case (Cons v vs)
  show ?case
  proof (cases k)
    case 0
    have "\<And>j. j < length vs \<Longrightarrow> vs ! j = 0"
      using Cons.prems(3) [of "Suc _"] 0 by simp
    then have "\<forall>w \<in> set vs. w = 0"
      by (auto simp: in_set_conv_nth)
    then have "sum_list vs = 0"
      by (induction vs) simp_all
    then show ?thesis using Cons.prems(2) 0 by simp
  next
    case (Suc k')
    have v0: "v = 0"
      using Cons.prems(3) [of 0] Suc by simp
    have "sum_list vs = 1"
    proof (rule Cons.IH [of k'])
      show "k' < length vs" using Cons.prems(1) Suc by simp
      show "vs ! k' = 1" using Cons.prems(2) Suc by simp
      show "\<And>j. j < length vs \<Longrightarrow> j \<noteq> k' \<Longrightarrow> vs ! j = 0"
        using Cons.prems(3) [of "Suc _"] Suc by simp
    qed
    then show ?thesis using v0 by simp
  qed
qed

lemma sum_list_all_zero: "list_all (\<lambda>v. v = 0) vs \<Longrightarrow> sum_list vs = (0 :: real)"
  by (induction vs) simp_all

lemma set_xrange: "set (xrange n) = {0..n - 1}"
  by (simp add: xrange_def)

lemma set_itertools_product: "set (itertools_product xs ys) = set xs \<times> set ys"
  by (auto simp: itertools_product_def)

lemma evaluate_all_map:
  assumes "\<And>b. b \<in> set bs \<Longrightarrow> evaluate (mk b) X mu = Inr (v b)"
  shows "evaluate_all (map mk bs) X mu = Inr (map v bs)"
  using assms by (induction bs) simp_all

lemma problem_values:
  assumes nx: "0 < nx" "nx \<le> 2 ^ 53" and ny: "0 < ny" "ny \<le> 2 ^ 53"
  shows "\<exists>problem. ThermalBlockProblem_init (nx, ny) prange f = Inr problem
     \<and> evaluate_all (diffusion_functions problem) p mu
         = Inr (map (\<lambda>(x, y). of_bool ((bound x nx \<le> fst p \<and> fst p < bound (x + 1) nx)
                                  \<and> (bound y ny \<le> snd p \<and> snd p < bound (y + 1) ny)))
                    (itertools_product (xrange nx) (xrange ny)))"
proof -
  have "evaluate_all
          (map (\<lambda>(x, y). \<lparr>block_x = x, block_y = y,
                          block_dx = fl (1 / real_of_int nx), block_dy = fl (1 / real_of_int ny)\<rparr>)
               (itertools_product (xrange nx) (xrange ny))) p mu
        = Inr (map (\<lambda>(x, y). of_bool ((bound x nx \<le> fst p \<and> fst p < bound (x + 1) nx)
                                  \<and> (bound y ny \<le> snd p \<and> snd p < bound (y + 1) ny)))
                    (itertools_product (xrange nx) (xrange ny)))"
  proof (rule evaluate_all_map)
    fix b assume "b \<in> set (itertools_product (xrange nx) (xrange ny))"
    then obtain x y where b: "b = (x, y)" and xy: "0 \<le> x" "x < nx" "0 \<le> y" "y < ny"
      unfolding set_itertools_product set_xrange by auto
    have "evaluate \<lparr>block_x = x, block_y = y,
                     block_dx = fl (1 / real_of_int nx), block_dy = fl (1 / real_of_int ny)\<rparr> p mu
        = Inr (of_bool (bound x nx \<le> fst p \<and> fst p < bound (x + 1) nx
                       \<and> bound y ny \<le> snd p \<and> snd p < bound (y + 1) ny))"
      using nx ny xy by (rule evaluate_block)
    then show "evaluate (case b of (x, y) \<Rightarrow> \<lparr>block_x = x, block_y = y,
                     block_dx = fl (1 / real_of_int nx), block_dy = fl (1 / real_of_int ny)\<rparr>) p mu
        = Inr (case b of (x, y) \<Rightarrow> of_bool ((bound x nx \<le> fst p \<and> fst p < bound (x + 1) nx)
                                  \<and> (bound y ny \<le> snd p \<and> snd p < bound (y + 1) ny)))"
      unfolding b by simp
  qed
  then show ?thesis
    unfolding init_positive [OF nx(1) ny(1)] by simp
qed

text \<open>
  A grid of indicator values in the order of the blocks: its length, its entries, and
  when exactly one entry, or none, is 1.
\<close>

lemma grid_length:
  "0 < nx \<Longrightarrow> 0 < ny \<Longrightarrow>
   length (map (\<lambda>(x, y). of_bool (A x \<and> B y) :: real) (itertools_product (xrange nx) (xrange ny)))
     = nat (nx * ny)"
  by (simp add: length_blocks)

lemma grid_nth:
  assumes "0 < nx" and "0 < ny" and "k < nat (nx * ny)"
  shows "map (\<lambda>(x, y). of_bool (A x \<and> B y) :: real) (itertools_product (xrange nx) (xrange ny)) ! k
     = of_bool (A (int (k div nat ny)) \<and> B (int (k mod nat ny)))"
proof -
  have "k < length (itertools_product (xrange nx) (xrange ny))"
    using assms by (simp add: length_blocks)
  then show ?thesis
    by (simp add: nth_blocks [OF assms])
qed

lemma grid_zero_one:
  "list_all (\<lambda>v. v = 0 \<or> v = 1)
     (map (\<lambda>(x, y). of_bool (A x \<and> B y) :: real) bs)"
  by (induction bs) (simp_all split: prod.splits)

lemma grid_all_zero:
  assumes "(\<forall>x. 0 \<le> x \<and> x < nx \<longrightarrow> \<not> A x) \<or> (\<forall>y. 0 \<le> y \<and> y < ny \<longrightarrow> \<not> B y)"
  shows "list_all (\<lambda>v. v = 0)
     (map (\<lambda>(x, y). of_bool (A x \<and> B y) :: real) (itertools_product (xrange nx) (xrange ny)))"
proof -
  have "of_bool (A x \<and> B y) = (0 :: real)"
    if "(x, y) \<in> set (itertools_product (xrange nx) (xrange ny))" for x y
  proof -
    have "0 \<le> x \<and> x < nx" "0 \<le> y \<and> y < ny"
      using that unfolding set_itertools_product set_xrange by auto
    then have "\<not> (A x \<and> B y)" using assms by blast
    then show ?thesis by simp
  qed
  then show ?thesis
    unfolding list_all_iff by auto
qed

lemma grid_unique_one:
  assumes nx: "0 < nx" and ny: "0 < ny"
    and i: "i < nat nx" "A (int i)" and iu: "\<And>i'. i' < nat nx \<Longrightarrow> A (int i') \<Longrightarrow> i' = i"
    and j: "j < nat ny" "B (int j)" and ju: "\<And>j'. j' < nat ny \<Longrightarrow> B (int j') \<Longrightarrow> j' = j"
  defines "vs \<equiv> map (\<lambda>(x, y). of_bool (A x \<and> B y) :: real) (itertools_product (xrange nx) (xrange ny))"
  shows "(\<exists>!k. k < length vs \<and> vs ! k = 1) \<and> sum_list vs = 1"
proof -
  have l: "length vs = nat (nx * ny)"
    unfolding vs_def using nx ny by (rule grid_length)
  have vk: "vs ! k = of_bool (A (int (k div nat ny)) \<and> B (int (k mod nat ny)))"
    if "k < nat (nx * ny)" for k
    unfolding vs_def using nx ny that by (rule grid_nth)
  have range: "k div nat ny < nat nx" "k mod nat ny < nat ny" if "k < nat (nx * ny)" for k
    using that nx ny by (simp_all add: nat_mult_distrib less_mult_imp_div_less)
  define k0 where "k0 = i * nat ny + j"
  have k0: "k0 < nat (nx * ny)"
  proof -
    have "Suc i \<le> nat nx" using i(1) by simp
    then have "Suc i * nat ny \<le> nat nx * nat ny" by (rule mult_le_mono1)
    then have "i * nat ny + nat ny \<le> nat nx * nat ny" by simp
    then have "k0 < nat nx * nat ny" unfolding k0_def using j(1) by linarith
    then show ?thesis using nx ny by (simp add: nat_mult_distrib)
  qed
  have dm: "k0 div nat ny = i" "k0 mod nat ny = j"
    using j(1) by (simp_all add: k0_def)
  have at_k0: "vs ! k0 = 1"
    unfolding vk [OF k0] dm using i(2) j(2) by simp
  have other: "vs ! k = 0" if k: "k < nat (nx * ny)" and ne: "k \<noteq> k0" for k
  proof -
    have "\<not> (A (int (k div nat ny)) \<and> B (int (k mod nat ny)))"
    proof
      assume a: "A (int (k div nat ny)) \<and> B (int (k mod nat ny))"
      have "k div nat ny = i" using range(1) [OF k] a by (intro iu) simp_all
      moreover have "k mod nat ny = j" using range(2) [OF k] a by (intro ju) simp_all
      ultimately have "k = i * nat ny + j"
        using div_mult_mod_eq [of k "nat ny"] by simp
      then show False using ne by (simp add: k0_def)
    qed
    then show ?thesis unfolding vk [OF k] by simp
  qed
  have uniq: "\<exists>!k. k < length vs \<and> vs ! k = 1"
  proof (rule ex1I [of _ k0])
    show "k0 < length vs \<and> vs ! k0 = 1"
      using k0 at_k0 by (simp only: l) 
  next
    fix k assume a: "k < length vs \<and> vs ! k = 1"
    then have k: "k < nat (nx * ny)" by (simp only: l)
    show "k = k0"
    proof (rule ccontr)
      assume "k \<noteq> k0"
      with k have "vs ! k = 0" by (rule other)
      then show False using a by simp
    qed
  qed
  have "sum_list vs = 1"
  proof (rule sum_list_unique_one [of k0])
    show "k0 < length vs" using k0 by (simp only: l)
    show "vs ! k0 = 1" by (rule at_k0)
    show "vs ! k = 0" if "k < length vs" and "k \<noteq> k0" for k
    proof -
      have "k < nat (nx * ny)" using that(1) by (simp only: l)
      then show ?thesis using that(2) by (rule other)
    qed
  qed
  then show ?thesis using uniq by simp
qed

lemma all_zero_replicate:
  "list_all (\<lambda>v. v = (0 :: real)) vs \<Longrightarrow> vs = replicate (length vs) 0"
  by (induction vs) simp_all

text \<open>
  The values of all block functions of a problem at one point.
\<close>

lemma block_values:
  assumes nx: "0 < nx" "nx \<le> 2 ^ 53" and ny: "0 < ny" "ny \<le> 2 ^ 53"
  shows "\<exists>problem vs. ThermalBlockProblem_init (nx, ny) prange f = Inr problem
     \<and> evaluate_all (diffusion_functions problem) p mu = Inr vs
     \<and> length vs = nat (nx * ny)
     \<and> list_all (\<lambda>v. v = 0 \<or> v = 1) vs
     \<and> (0 \<le> fst p \<and> fst p < bound nx nx \<and> 0 \<le> snd p \<and> snd p < bound ny ny
          \<longrightarrow> (\<exists>!k. k < length vs \<and> vs ! k = 1) \<and> sum_list vs = 1)
     \<and> (\<not> (0 \<le> fst p \<and> fst p < bound nx nx \<and> 0 \<le> snd p \<and> snd p < bound ny ny)
          \<longrightarrow> list_all (\<lambda>v. v = 0) vs \<and> sum_list vs = 0)"
proof -
  define A where "A x \<longleftrightarrow> bound x nx \<le> fst p \<and> fst p < bound (x + 1) nx" for x
  define B where "B y \<longleftrightarrow> bound y ny \<le> snd p \<and> snd p < bound (y + 1) ny" for y
  define vs where "vs = map (\<lambda>(x, y). of_bool (A x \<and> B y) :: real)
                           (itertools_product (xrange nx) (xrange ny))"
  obtain problem where problem: "ThermalBlockProblem_init (nx, ny) prange f = Inr problem"
    and vals: "evaluate_all (diffusion_functions problem) p mu = Inr vs"
    using problem_values [OF nx ny, of prange f p mu]
    unfolding vs_def A_def B_def by blast
  have len: "length vs = nat (nx * ny)"
    unfolding vs_def using nx(1) ny(1) by (rule grid_length)
  have zero_one: "list_all (\<lambda>v. v = 0 \<or> v = 1) vs"
    unfolding vs_def by (rule grid_zero_one)
  have in_case: "(\<exists>!k. k < length vs \<and> vs ! k = 1) \<and> sum_list vs = 1"
    if p: "0 \<le> fst p \<and> fst p < bound nx nx \<and> 0 \<le> snd p \<and> snd p < bound ny ny"
  proof -
    have "\<exists>!i. i < nat nx \<and> A (int i)"
      using block_interval [OF nx, of "fst p"] p unfolding A_def by simp
    then obtain i where i: "i < nat nx" "A (int i)"
      and iu: "\<And>i'. i' < nat nx \<Longrightarrow> A (int i') \<Longrightarrow> i' = i"
      by blast
    have "\<exists>!j. j < nat ny \<and> B (int j)"
      using block_interval [OF ny, of "snd p"] p unfolding B_def by simp
    then obtain j where j: "j < nat ny" "B (int j)"
      and ju: "\<And>j'. j' < nat ny \<Longrightarrow> B (int j') \<Longrightarrow> j' = j"
      by blast
    show ?thesis
      unfolding vs_def using nx(1) ny(1) i iu j ju by (rule grid_unique_one)
  qed
  have out_case: "list_all (\<lambda>v. v = 0) vs \<and> sum_list vs = 0"
    if p: "\<not> (0 \<le> fst p \<and> fst p < bound nx nx \<and> 0 \<le> snd p \<and> snd p < bound ny ny)"
  proof -
    consider "fst p < 0 \<or> bound nx nx \<le> fst p" | "snd p < 0 \<or> bound ny ny \<le> snd p"
      using p by linarith
    then have "(\<forall>x. 0 \<le> x \<and> x < nx \<longrightarrow> \<not> A x) \<or> (\<forall>y. 0 \<le> y \<and> y < ny \<longrightarrow> \<not> B y)"
    proof cases
      case 1
      then have "\<forall>x. 0 \<le> x \<and> x < nx \<longrightarrow> \<not> A x"
        unfolding A_def using no_block_outside [OF nx] by blast
      then show ?thesis ..
    next
      case 2
      then have "\<forall>y. 0 \<le> y \<and> y < ny \<longrightarrow> \<not> B y"
        unfolding B_def using no_block_outside [OF ny] by blast
      then show ?thesis ..
    qed
    then have "list_all (\<lambda>v. v = 0) vs"
      unfolding vs_def by (rule grid_all_zero)
    then show ?thesis using sum_list_all_zero by blast
  qed
  show ?thesis
    using problem vals len zero_one in_case out_case by blast
qed

text \<open>
  Claim C3, amended. For a block \<open>(x, y)\<close> of the \<open>nx\<close>-by-\<open>ny\<close> partition with at most
  \<open>2\<^sup>5\<^sup>3\<close> blocks in each direction, the steps \<^verbatim>\<open>1 / nx\<close> and \<^verbatim>\<open>1 / ny\<close> are computed and
  no exception is raised, and \<^verbatim>\<open>ThermalBlockDiffusionFunction(x, y, 1 / nx, 1 / ny).evaluate(p)\<close>
  returns 1 if \<open>X x \<le> p\<^sub>0 < X (x + 1)\<close> and \<open>Y y \<le> p\<^sub>1 < Y (y + 1)\<close>, and 0 at every other
  point \<open>p\<close> of the plane, where \<open>X k = bound k nx\<close> and \<open>Y k = bound k ny\<close> are the doubles
  the code compares with: \<^verbatim>\<open>k * (1 / n)\<close>, the quotient and the product each rounded to
  the nearest double. Each of the four bounds differs from the exact \<open>x / nx\<close>,
  \<open>(x + 1) / nx\<close>, \<open>y / ny\<close>, \<open>(y + 1) / ny\<close> by at most \<open>2\<^sup>-\<^sup>5\<^sup>1\<close> times that value.
\<close>

theorem evaluate_block_indicator:
  assumes "0 \<le> x" and "x < nx" and "nx \<le> 2 ^ 53" and "0 \<le> y" and "y < ny" and "ny \<le> 2 ^ 53"
  shows "\<exists>dx dy. true_divide 1 nx = Inr dx \<and> true_divide 1 ny = Inr dy
     \<and> evaluate \<lparr>block_x = x, block_y = y, block_dx = dx, block_dy = dy\<rparr> p mu
         = Inr (if bound x nx \<le> fst p \<and> fst p < bound (x + 1) nx
                 \<and> bound y ny \<le> snd p \<and> snd p < bound (y + 1) ny then 1 else 0)
     \<and> \<bar>bound x nx - of_int x / of_int nx\<bar> \<le> (of_int x / of_int nx) / 2 ^ 51
     \<and> \<bar>bound (x + 1) nx - of_int (x + 1) / of_int nx\<bar> \<le> (of_int (x + 1) / of_int nx) / 2 ^ 51
     \<and> \<bar>bound y ny - of_int y / of_int ny\<bar> \<le> (of_int y / of_int ny) / 2 ^ 51
     \<and> \<bar>bound (y + 1) ny - of_int (y + 1) / of_int ny\<bar> \<le> (of_int (y + 1) / of_int ny) / 2 ^ 51"
proof -
  have nx: "0 < nx" and ny: "0 < ny" using assms by simp_all
  have x1: "0 \<le> x + 1" "x + 1 \<le> nx" and y1: "0 \<le> y + 1" "y + 1 \<le> ny"
    using assms by simp_all
  have "evaluate \<lparr>block_x = x, block_y = y,
                   block_dx = fl (1 / real_of_int nx), block_dy = fl (1 / real_of_int ny)\<rparr> p mu
         = Inr (of_bool (bound x nx \<le> fst p \<and> fst p < bound (x + 1) nx
                       \<and> bound y ny \<le> snd p \<and> snd p < bound (y + 1) ny))"
    using nx assms(3) ny assms(6) assms(1,2,4,5) by (rule evaluate_block)
  then have ev: "evaluate \<lparr>block_x = x, block_y = y,
                   block_dx = fl (1 / real_of_int nx), block_dy = fl (1 / real_of_int ny)\<rparr> p mu
         = Inr (if bound x nx \<le> fst p \<and> fst p < bound (x + 1) nx
                 \<and> bound y ny \<le> snd p \<and> snd p < bound (y + 1) ny then 1 else 0)"
    by (simp add: of_bool_def)
  have e1: "\<bar>bound x nx - of_int x / of_int nx\<bar> \<le> (of_int x / of_int nx) / 2 ^ 51"
    using nx assms(3,1) by (rule bound_error) (use assms(2) in simp)
  have e2: "\<bar>bound (x + 1) nx - of_int (x + 1) / of_int nx\<bar> \<le> (of_int (x + 1) / of_int nx) / 2 ^ 51"
    using nx assms(3) x1 by (rule bound_error)
  have e3: "\<bar>bound y ny - of_int y / of_int ny\<bar> \<le> (of_int y / of_int ny) / 2 ^ 51"
    using ny assms(6,4) by (rule bound_error) (use assms(5) in simp)
  have e4: "\<bar>bound (y + 1) ny - of_int (y + 1) / of_int ny\<bar> \<le> (of_int (y + 1) / of_int ny) / 2 ^ 51"
    using ny assms(6) y1 by (rule bound_error)
  show ?thesis
    using true_divide_positive [OF nx] true_divide_positive [OF ny] ev e1 e2 e3 e4
    by blast
qed

theorem evaluate_block_indicator_witness:
  "(0 :: int) \<le> 1 \<and> (1 :: int) < 2 \<and> (2 :: int) \<le> 2 ^ 53 \<and> (0 :: int) \<le> 0 \<and> (0 :: int) < 2
   \<and> true_divide 1 2 = Inr (1 / 2)
   \<and> evaluate \<lparr>block_x = 1, block_y = 0, block_dx = 1 / 2, block_dy = 1 / 2\<rparr> (3 / 4, 1 / 4) None
       = Inr 1
   \<and> evaluate \<lparr>block_x = 1, block_y = 0, block_dx = 1 / 2, block_dy = 1 / 2\<rparr> (1 / 4, 1 / 4) None
       = Inr 0"
proof -
  have d: "true_divide 1 2 = Inr (1 / 2)"
    using true_divide_positive [of 2] by (simp add: fl_half)
  obtain dx dy where a: "true_divide 1 2 = Inr dx" "true_divide 1 2 = Inr dy"
    and e: "evaluate \<lparr>block_x = 1, block_y = 0, block_dx = dx, block_dy = dy\<rparr>
              (3 / 4, 1 / 4) None = Inr 1"
    using evaluate_block_indicator [of 1 2 0 2 "(3 / 4, 1 / 4)" None]
    by (auto simp add: bound_halves)
  obtain dx' dy' where a': "true_divide 1 2 = Inr dx'" "true_divide 1 2 = Inr dy'"
    and e': "evaluate \<lparr>block_x = 1, block_y = 0, block_dx = dx', block_dy = dy'\<rparr>
              (1 / 4, 1 / 4) None = Inr 0"
    using evaluate_block_indicator [of 1 2 0 2 "(1 / 4, 1 / 4)" None]
    by (auto simp add: bound_halves)
  have h: "dx = 1 / 2" "dy = 1 / 2" "dx' = 1 / 2" "dy' = 1 / 2"
    using a a' unfolding d by simp_all
  show ?thesis
    using d e e' unfolding h by simp
qed

text \<open>
  Claim C3 as stated fails at an edge of a block whose bound is rounded, in both
  directions. With 49 blocks in the first direction, \<^verbatim>\<open>1 / 49\<close> is the double
  \<open>5882252574524729 / 2\<^sup>5\<^sup>8\<close> and \<^verbatim>\<open>49 * (1 / 49)\<close> is \<open>1 - 2\<^sup>-\<^sup>5\<^sup>3\<close>, the largest double below
  1: the point \<open>(1 - 2\<^sup>-\<^sup>5\<^sup>3, 0)\<close> satisfies \<open>48 / 49 \<le> p\<^sub>0 < 49 / 49\<close> and
  \<open>0 / 1 \<le> p\<^sub>1 < 1 / 1\<close>, yet the function of block \<open>(48, 0)\<close> returns 0 there. With 3
  blocks, \<^verbatim>\<open>1 / 3\<close> is the double \<open>6004799503160661 / 2\<^sup>5\<^sup>4\<close> and \<^verbatim>\<open>2 * (1 / 3)\<close> is
  \<open>6004799503160661 / 2\<^sup>5\<^sup>3\<close>, which is less than \<open>2 / 3\<close>: at the point with this first
  coordinate the function of block \<open>(2, 0)\<close> returns 1, although \<open>2 / 3 \<le> p\<^sub>0\<close> fails.
\<close>

theorem block_edge_rounding:
  "true_divide 1 49 = Inr (5882252574524729 / 2 ^ 58) \<and> true_divide 1 1 = Inr 1
   \<and> evaluate \<lparr>block_x = 48, block_y = 0,
                block_dx = 5882252574524729 / 2 ^ 58, block_dy = 1\<rparr> (1 - 1 / 2 ^ 53, 0) None
       = Inr 0
   \<and> (48 :: real) / 49 \<le> 1 - 1 / 2 ^ 53 \<and> (1 - 1 / 2 ^ 53 :: real) < 49 / 49
   \<and> (0 :: real) / 1 \<le> 0 \<and> (0 :: real) < 1 / 1
   \<and> true_divide 1 3 = Inr (6004799503160661 / 2 ^ 54)
   \<and> evaluate \<lparr>block_x = 2, block_y = 0,
                block_dx = 6004799503160661 / 2 ^ 54, block_dy = 1\<rparr>
        (6004799503160661 / 2 ^ 53, 0) None
       = Inr 1
   \<and> (6004799503160661 / 2 ^ 53 :: real) < 2 / 3"
proof -
  have d: "true_divide 1 49 = Inr (5882252574524729 / 2 ^ 58)" "true_divide 1 1 = Inr 1"
    "true_divide 1 3 = Inr (6004799503160661 / 2 ^ 54)"
    using true_divide_positive [of 49] true_divide_positive [of 1] true_divide_positive [of 3]
    by (simp_all add: fl_49th fl_3rd)
  have "evaluate \<lparr>block_x = 48, block_y = 0,
                   block_dx = fl (1 / real_of_int 49), block_dy = fl (1 / real_of_int 1)\<rparr>
          (1 - 1 / 2 ^ 53, 0) None
         = Inr (of_bool (bound 48 49 \<le> fst (1 - 1 / 2 ^ 53 :: real, 0 :: real)
                       \<and> fst (1 - 1 / 2 ^ 53 :: real, 0 :: real) < bound (48 + 1) 49
                       \<and> bound 0 1 \<le> snd (1 - 1 / 2 ^ 53 :: real, 0 :: real)
                       \<and> snd (1 - 1 / 2 ^ 53 :: real, 0 :: real) < bound (0 + 1) 1))"
    by (rule evaluate_block) simp_all
  then have a: "evaluate \<lparr>block_x = 48, block_y = 0,
                block_dx = 5882252574524729 / 2 ^ 58, block_dy = 1\<rparr> (1 - 1 / 2 ^ 53, 0) None
       = Inr 0"
    by (simp add: fl_49th bound_49_49)
  have "evaluate \<lparr>block_x = 2, block_y = 0,
                   block_dx = fl (1 / real_of_int 3), block_dy = fl (1 / real_of_int 1)\<rparr>
          (6004799503160661 / 2 ^ 53, 0) None
         = Inr (of_bool (bound 2 3 \<le> fst (6004799503160661 / 2 ^ 53 :: real, 0 :: real)
                       \<and> fst (6004799503160661 / 2 ^ 53 :: real, 0 :: real) < bound (2 + 1) 3
                       \<and> bound 0 1 \<le> snd (6004799503160661 / 2 ^ 53 :: real, 0 :: real)
                       \<and> snd (6004799503160661 / 2 ^ 53 :: real, 0 :: real) < bound (0 + 1) 1))"
    by (rule evaluate_block) simp_all
  then have b: "evaluate \<lparr>block_x = 2, block_y = 0,
                block_dx = 6004799503160661 / 2 ^ 54, block_dy = 1\<rparr>
        (6004799503160661 / 2 ^ 53, 0) None = Inr 1"
    by (simp add: fl_3rd bound_2_3 bound_3_3 bound_1_1)
  show ?thesis using d a b by simp
qed

text \<open>
  Claim C4, amended. For block counts up to \<open>2\<^sup>5\<^sup>3\<close> the problem is constructed, and each of
  its \<open>nx * ny\<close> block functions takes the value 0 or 1 at every point \<open>p\<close>. The blocks
  partition the rectangle \<open>[0, X) \<times> [0, Y)\<close>, where \<open>X = bound nx nx\<close> and \<open>Y = bound ny ny\<close>
  are the doubles \<^verbatim>\<open>nx * (1 / nx)\<close> and \<^verbatim>\<open>ny * (1 / ny)\<close> of the code: at every point of
  it exactly one block function is 1 and all others are 0, so that their sum is 1; at
  every point outside it all block functions are 0. \<open>X\<close> and \<open>Y\<close> lie between
  \<open>1 - 2\<^sup>-\<^sup>5\<^sup>3\<close> and 1. Hence the points with \<open>p\<^sub>0 \<ge> 1\<close> or \<open>p\<^sub>1 \<ge> 1\<close> lie in no block, and
  each point of \<open>[0, 1 - 2\<^sup>-\<^sup>5\<^sup>3) \<times> [0, 1 - 2\<^sup>-\<^sup>5\<^sup>3)\<close> lies in exactly one.
\<close>

theorem blocks_partition_rounded_square:
  assumes "0 < nx" and "nx \<le> 2 ^ 53" and "0 < ny" and "ny \<le> 2 ^ 53"
  shows "\<exists>problem vs. ThermalBlockProblem_init (nx, ny) prange f = Inr problem
     \<and> evaluate_all (diffusion_functions problem) p mu = Inr vs
     \<and> length vs = nat (nx * ny)
     \<and> list_all (\<lambda>v. v = 0 \<or> v = 1) vs
     \<and> (0 \<le> fst p \<and> fst p < bound nx nx \<and> 0 \<le> snd p \<and> snd p < bound ny ny
          \<longrightarrow> (\<exists>!k. k < length vs \<and> vs ! k = 1) \<and> sum_list vs = 1)
     \<and> (\<not> (0 \<le> fst p \<and> fst p < bound nx nx \<and> 0 \<le> snd p \<and> snd p < bound ny ny)
          \<longrightarrow> list_all (\<lambda>v. v = 0) vs \<and> sum_list vs = 0)
     \<and> 1 - 1 / 2 ^ 53 \<le> bound nx nx \<and> bound nx nx \<le> 1
     \<and> 1 - 1 / 2 ^ 53 \<le> bound ny ny \<and> bound ny ny \<le> 1
     \<and> (1 \<le> fst p \<or> 1 \<le> snd p \<longrightarrow> list_all (\<lambda>v. v = 0) vs)
     \<and> (0 \<le> fst p \<and> fst p < 1 - 1 / 2 ^ 53 \<and> 0 \<le> snd p \<and> snd p < 1 - 1 / 2 ^ 53
          \<longrightarrow> (\<exists>!k. k < length vs \<and> vs ! k = 1) \<and> sum_list vs = 1)"
proof -
  note tx = bound_top [OF assms(1,2)] and ty = bound_top [OF assms(3,4)]
  obtain problem vs where problem: "ThermalBlockProblem_init (nx, ny) prange f = Inr problem"
    and vals: "evaluate_all (diffusion_functions problem) p mu = Inr vs"
    and len: "length vs = nat (nx * ny)"
    and zero_one: "list_all (\<lambda>v. v = 0 \<or> v = 1) vs"
    and in_case: "0 \<le> fst p \<and> fst p < bound nx nx \<and> 0 \<le> snd p \<and> snd p < bound ny ny
          \<longrightarrow> (\<exists>!k. k < length vs \<and> vs ! k = 1) \<and> sum_list vs = 1"
    and out_case: "\<not> (0 \<le> fst p \<and> fst p < bound nx nx \<and> 0 \<le> snd p \<and> snd p < bound ny ny)
          \<longrightarrow> list_all (\<lambda>v. v = 0) vs \<and> sum_list vs = 0"
    using block_values [OF assms, of prange f p mu] by blast
  have edge: "1 \<le> fst p \<or> 1 \<le> snd p \<longrightarrow> list_all (\<lambda>v. v = 0) vs"
  proof
    assume "1 \<le> fst p \<or> 1 \<le> snd p"
    then have "\<not> (0 \<le> fst p \<and> fst p < bound nx nx \<and> 0 \<le> snd p \<and> snd p < bound ny ny)"
      using tx(2) ty(2) by linarith
    then show "list_all (\<lambda>v. v = 0) vs" using out_case by blast
  qed
  have inner: "0 \<le> fst p \<and> fst p < 1 - 1 / 2 ^ 53 \<and> 0 \<le> snd p \<and> snd p < 1 - 1 / 2 ^ 53
          \<longrightarrow> (\<exists>!k. k < length vs \<and> vs ! k = 1) \<and> sum_list vs = 1"
  proof
    assume "0 \<le> fst p \<and> fst p < 1 - 1 / 2 ^ 53 \<and> 0 \<le> snd p \<and> snd p < 1 - 1 / 2 ^ 53"
    then have "0 \<le> fst p \<and> fst p < bound nx nx \<and> 0 \<le> snd p \<and> snd p < bound ny ny"
      using tx(1) ty(1) by linarith
    then show "(\<exists>!k. k < length vs \<and> vs ! k = 1) \<and> sum_list vs = 1"
      using in_case by blast
  qed
  show ?thesis
    using problem vals len zero_one in_case out_case tx ty edge inner by blast
qed

theorem blocks_partition_rounded_square_witness:
  "(0 :: int) < 2 \<and> (2 :: int) \<le> 2 ^ 53
   \<and> (\<exists>problem vs. ThermalBlockProblem_init (2, 2) (0.1, 1) () = Inr problem
        \<and> evaluate_all (diffusion_functions problem) (3 / 4, 1 / 4) None = Inr vs
        \<and> length vs = 4
        \<and> (\<exists>!k. k < length vs \<and> vs ! k = 1) \<and> sum_list vs = 1)
   \<and> (\<exists>problem vs. ThermalBlockProblem_init (2, 2) (0.1, 1) () = Inr problem
        \<and> evaluate_all (diffusion_functions problem) (1, 1 / 4) None = Inr vs
        \<and> length vs = 4
        \<and> list_all (\<lambda>v. v = 0) vs \<and> sum_list vs = 0)"
  using blocks_partition_rounded_square [of 2 2 "(0.1, 1)" "()" "(3 / 4, 1 / 4)" None]
    blocks_partition_rounded_square [of 2 2 "(0.1, 1)" "()" "(1, 1 / 4)" None]
  by (simp add: bound_halves) blast

lemma diffusion_values_outside:
  assumes "0 < nx" and "nx \<le> 2 ^ 53" and "0 < ny" and "ny \<le> 2 ^ 53"
    and "\<not> (0 \<le> fst p \<and> fst p < bound nx nx \<and> 0 \<le> snd p \<and> snd p < bound ny ny)"
  shows "diffusion_values (nx, ny) p = Inr (replicate (nat (nx * ny)) 0)"
proof -
  obtain problem vs where problem: "ThermalBlockProblem_init (nx, ny) (0.1, 1) () = Inr problem"
    and vals: "evaluate_all (diffusion_functions problem) p None = Inr vs"
    and len: "length vs = nat (nx * ny)"
    and zero: "list_all (\<lambda>v. v = 0) vs"
    using block_values [OF assms(1-4), of "(0.1, 1)" "()" p None] assms(5) by blast
  have "vs = replicate (nat (nx * ny)) 0"
    using all_zero_replicate [OF zero] len by simp
  then show ?thesis
    using problem vals by (simp add: diffusion_values_def)
qed

text \<open>
  Claim C4 as stated fails on the right and the upper edge of the unit square, and on
  more of it when the last bound is rounded down. The block function of the 1-by-1
  problem is 0 at the corner \<open>(1, 1)\<close>. With 49 blocks in the first direction the double
  \<^verbatim>\<open>49 * (1 / 49)\<close> is \<open>1 - 2\<^sup>-\<^sup>5\<^sup>3\<close>, and all 49 block functions are 0 at the point
  \<open>(1 - 2\<^sup>-\<^sup>5\<^sup>3, 0)\<close>, whose coordinates are doubles of \<open>[0, 1)\<close>.
\<close>

theorem unit_square_points_in_no_block:
  "diffusion_values (1, 1) (1, 1) = Inr [0]
   \<and> diffusion_values (49, 1) (1 - 1 / 2 ^ 53, 0) = Inr (replicate 49 0)
   \<and> (0 :: real) \<le> 1 - 1 / 2 ^ 53 \<and> (1 - 1 / 2 ^ 53 :: real) < 1"
proof -
  have "diffusion_values (1, 1) (1, 1) = Inr (replicate (nat (1 * 1)) 0)"
    by (rule diffusion_values_outside) (simp_all add: bound_1_1)
  moreover have "diffusion_values (49, 1) (1 - 1 / 2 ^ 53, 0) = Inr (replicate (nat (49 * 1)) 0)"
    by (rule diffusion_values_outside) (simp_all add: bound_49_49)
  ultimately show ?thesis by simp
qed

lemma evaluate_parameter_independent: "evaluate g X mu1 = evaluate g X mu2"
  by (simp add: evaluate_def)

lemma evaluate_all_parameter_independent:
  "evaluate_all gs X mu1 = evaluate_all gs X mu2"
proof (induction gs)
  case Nil
  show ?case by simp
next
  case (Cons g gs)
  show ?case
    unfolding evaluate_all.simps Cons.IH evaluate_parameter_independent [of g X mu1 mu2] ..
qed





text \<open>With equal block counts the shapes agree and the assembly succeeds.\<close>

lemma square_gui_assembles:
  "solve_update_weights 2 2 [1, 2, 3, 4] = Inr [3, 1, 4, 2]"
proof -
  have "ThermalBlockProblem_init (2, 2) (PARAM_MIN, PARAM_MAX) () =
     Inr \<lparr>domain = RectDomain, rhs = (),
          diffusion_functions =
            map (\<lambda>(x, y). \<lparr>block_x = x, block_y = y,
                            block_dx = fl (1 / real_of_int 2), block_dy = fl (1 / real_of_int 2)\<rparr>)
                (itertools_product (xrange 2) (xrange 2)),
          diffusion_functionals =
            map (\<lambda>(x, y). parameter_functional_factory (2, 2) x y)
                (itertools_product (xrange 2) (xrange 2)),
          problem_name = ''ThermalBlock'',
          parameter_space = \<lparr>parameter_type = [(''diffusion'', [2, 2])],
                             minimum = fst (PARAM_MIN, PARAM_MAX),
                             maximum = snd (PARAM_MIN, PARAM_MAX)\<rparr>,
          parameter_range = (PARAM_MIN, PARAM_MAX),
          num_blocks = (2, 2)\<rparr>"
    by (rule init_positive) simp_all
  then show ?thesis
    by (simp add: solve_update_weights_def solve_update_mu_def reshape_def
        itertools_product_def xrange_def
        parameter_functional_factory_def functional_evaluate_def matches_type_def
        functional_parameter_type_def upto.simps)
qed

text \<open>
  Claim C9. A block function takes the same value at a point whatever the parameter is:
  \<^verbatim>\<open>evaluate\<close> never reads \<^verbatim>\<open>mu\<close>. Hence two parameters that give the functionals the
  same weights give the same weighted sum: the parameter enters only through the
  weights.
\<close>

theorem diffusion_functions_parameter_independent:
  "evaluate g p mu1 = evaluate g p mu2
   \<and> (assemble (diffusion_functionals problem) nu1 = assemble (diffusion_functionals problem) nu2
        \<longrightarrow> diffusion problem p nu1 = diffusion problem p nu2)"
proof -
  have "evaluate g p mu1 = evaluate g p mu2"
    by (simp add: evaluate_def)
  moreover have "evaluate_all (diffusion_functions problem) p (Some nu1)
                 = evaluate_all (diffusion_functions problem) p (Some nu2)"
    by (rule evaluate_all_parameter_independent)
  ultimately show ?thesis
    by (simp add: diffusion_def split: sum.splits)
qed

theorem diffusion_functions_parameter_independent_witness:
  "evaluate \<lparr>block_x = 0, block_y = 0, block_dx = 1, block_dy = 1\<rparr> (1/2, 1/2) None
     = evaluate \<lparr>block_x = 0, block_y = 0, block_dx = 1, block_dy = 1\<rparr> (1/2, 1/2)
         (Some [''diffusion'' \<mapsto> \<lparr>shape = [1, 1], data = [7]\<rparr>])
   \<and> (\<exists>problem. ThermalBlockProblem_init (1, 1) (0.1, 1) () = Inr problem
        \<and> diffusion problem (1/2, 1/2) [''diffusion'' \<mapsto> \<lparr>shape = [1, 1], data = [7]\<rparr>]
          = diffusion problem (1/2, 1/2)
              [''diffusion'' \<mapsto> \<lparr>shape = [1, 1], data = [7]\<rparr>, ''other'' \<mapsto> \<lparr>shape = [], data = [3]\<rparr>])"
proof -
  let ?nu1 = "[''diffusion'' \<mapsto> \<lparr>shape = [1, 1], data = [7]\<rparr>]"
  let ?nu2 = "[''diffusion'' \<mapsto> \<lparr>shape = [1, 1], data = [7]\<rparr>,
               ''other'' \<mapsto> \<lparr>shape = [], data = [3]\<rparr>]"
  obtain problem where p: "ThermalBlockProblem_init (1, 1) (0.1, 1) () = Inr problem"
    using init_positive [of 1 1 "(0.1, 1)" "()"] by simp
  then have fs: "diffusion_functionals problem = [parameter_functional_factory (1, 1) 0 0]"
    using init_positive [of 1 1 "(0.1, 1)" "()"]
    by (auto simp: itertools_product_def xrange_def)
  have "assemble (diffusion_functionals problem) ?nu1 = assemble (diffusion_functionals problem) ?nu2"
    unfolding fs
    by (simp add: functional_evaluate_def matches_type_def functional_parameter_type_def
        parameter_functional_factory_def)
  then show ?thesis
    using p diffusion_functions_parameter_independent
      [of "\<lparr>block_x = 0, block_y = 0, block_dx = 1, block_dy = 1\<rparr>" "(1/2, 1/2)" None
          "Some ?nu1" problem ?nu1 ?nu2]
    by simp
qed

section \<open>Properties of the 1D demo\<close>

lemma str_int_0: "str_int 0 = ''0''"
  by (simp add: str_int_def str_nat.simps digit_char_def)

lemma str_int_1: "str_int 1 = ''1''"
  by (simp add: str_int_def str_nat.simps digit_char_def)

text \<open>
  Claim C10. For every integer \<open>nrhs\<close> outside \<open>0 \<le> nrhs \<le> 1\<close> the demo raises
  \<^verbatim>\<open>AssertionError\<close>, not \<^verbatim>\<open>ValueError\<close>, whatever \<open>n\<close> is. For \<open>nrhs = 0\<close> the assertion
  passes and the right-hand side of the problem is the constant function 10; for
  \<open>nrhs = 1\<close> it is the function \<open>X \<mapsto> 1000 * (X0 - 0.5)\<^sup>2\<close>.
\<close>

theorem cg_oned_demo_rhs_selection:
  "((nrhs < 0 \<or> 1 < nrhs) \<longrightarrow> cg_oned_demo nrhs n = Inl AssertionError
        \<and> cg_oned_demo nrhs n \<noteq> Inl ValueError)
   \<and> (nrhs = 0 \<longrightarrow> (\<exists>problem. cg_oned_demo_problem nrhs = Inr problem
        \<and> ep_rhs problem = (\<lambda>X. 10)
        \<and> (n \<noteq> 0 \<longrightarrow> cg_oned_demo nrhs n = Inr problem)))
   \<and> (nrhs = 1 \<longrightarrow> (\<exists>problem. cg_oned_demo_problem nrhs = Inr problem
        \<and> ep_rhs problem = (\<lambda>X. 1000 * (X - 0.5) ^ 2)
        \<and> (n \<noteq> 0 \<longrightarrow> cg_oned_demo nrhs n = Inr problem)))"
  by (auto simp: cg_oned_demo_def cg_oned_demo_problem_def str_int_0 str_int_1 Let_def)

theorem cg_oned_demo_rhs_selection_witness:
  "cg_oned_demo 2 10 = Inl AssertionError
   \<and> cg_oned_demo (- 1) 10 = Inl AssertionError
   \<and> (\<exists>problem. cg_oned_demo 0 10 = Inr problem \<and> ep_rhs problem (1/4) = 10)
   \<and> (\<exists>problem. cg_oned_demo 1 10 = Inr problem \<and> ep_rhs problem (3/5) = 10)"
  using cg_oned_demo_rhs_selection [of 2 10] cg_oned_demo_rhs_selection [of "- 1" 10]
    cg_oned_demo_rhs_selection [of 0 10] cg_oned_demo_rhs_selection [of 1 10]
  by (auto simp: power2_eq_square)

section \<open>Properties of the reduced simulation\<close>

lemma lifecycle_append:
  "lifecycle b (evs @ evs') \<longleftrightarrow>
     lifecycle b evs \<and> lifecycle (b \<or> GreedyReturned \<in> set evs) evs'"
  by (induction b evs rule: lifecycle.induct) auto

lemma count_returned_append:
  "count_list (evs @ evs') GreedyReturned = count_list evs GreedyReturned + count_list evs' GreedyReturned"
  by (induction evs) auto

lemma solve_step:
  assumes "sim_inv s" and "ReducedSim_solve lib g s mu = (r, s', evs)"
  shows "sim_inv s' \<and> lifecycle (\<not> first s) evs
       \<and> (first s' \<longleftrightarrow> first s \<and> GreedyReturned \<notin> set evs)
       \<and> count_list evs GreedyReturned \<le> (if first s then 1 else 0)
       \<and> (RbSolve mu \<in> set evs \<longrightarrow> \<not> first s' \<and> rb_discretization s' \<noteq> None
            \<and> reconstructor s' \<noteq> None
            \<and> (first s \<longrightarrow> evs = [GreedyCalled, GreedyReturned, RbSolve mu]))
       \<and> (\<forall>mu'. RbSolve mu' \<in> set evs \<longrightarrow> mu' = mu)"
  using assms
  by (auto simp: ReducedSim_solve_def ReducedSim_first_def sim_inv_def
      split: if_splits sum.splits option.splits prod.splits)

lemma session_inv:
  assumes "sim_inv s" and "ReducedSim_session lib s calls = (rs, s', evs)"
  shows "sim_inv s' \<and> lifecycle (\<not> first s) evs
       \<and> (first s' \<longleftrightarrow> first s \<and> GreedyReturned \<notin> set evs)
       \<and> count_list evs GreedyReturned \<le> (if first s then 1 else 0)"
  using assms
proof (induction calls arbitrary: s rs s' evs)
  case Nil
  then show ?case by simp
next
  case (Cons c calls)
  obtain g mu where c: "c = (g, mu)" by (cases c)
  obtain r s1 evs1 where one: "ReducedSim_solve lib g s mu = (r, s1, evs1)"
    by (cases "ReducedSim_solve lib g s mu")
  obtain rs2 s2 evs2 where rest: "ReducedSim_session lib s1 calls = (rs2, s2, evs2)"
    by (cases "ReducedSim_session lib s1 calls")
  have eq: "s' = s2" "evs = evs1 @ evs2"
    using Cons.prems(2) c one rest by simp_all
  note st = solve_step [OF Cons.prems(1) one]
  have inv1: "sim_inv s1" using st by simp
  note ih = Cons.IH [OF inv1 rest]
  have f1: "(\<not> first s1) = (\<not> first s \<or> GreedyReturned \<in> set evs1)"
    using st by blast
  have l: "lifecycle (\<not> first s) (evs1 @ evs2)"
    unfolding lifecycle_append using st ih f1 by simp
  have cnt: "count_list (evs1 @ evs2) GreedyReturned \<le> (if first s then 1 else 0)"
  proof (cases "first s1")
    case True
    then have "GreedyReturned \<notin> set evs1" and "first s" using st by blast+
    then have "count_list evs1 GreedyReturned = 0" by (simp add: count_list_0_iff)
    then show ?thesis
      using ih True \<open>first s\<close> by (simp add: count_returned_append)
  next
    case False
    then have "count_list evs2 GreedyReturned = 0" using ih by simp
    then show ?thesis
      using st by (simp add: count_returned_append)
  qed
  show ?case
    unfolding eq using ih l cnt st by auto
qed

lemma init_inv: "sim_inv ReducedSim_init" and init_first: "first ReducedSim_init"
  by (simp_all add: sim_inv_def ReducedSim_init_def)

lemma session_from_init:
  assumes "ReducedSim_session lib ReducedSim_init calls = (rs, s, evs)"
  shows "sim_inv s \<and> lifecycle False evs
       \<and> (first s \<longleftrightarrow> GreedyReturned \<notin> set evs)
       \<and> count_list evs GreedyReturned \<le> 1"
  using session_inv [OF init_inv assms] by (simp add: init_first)

lemma count_called_append:
  "count_list (evs @ evs') GreedyCalled = count_list evs GreedyCalled + count_list evs' GreedyCalled"
  by (induction evs) auto

lemma solve_step_returning:
  assumes "ReducedSim_solve lib (Inr d) s mu = (r, s', evs)"
  shows "count_list evs GreedyCalled = count_list evs GreedyReturned"
  using assms
  by (cases d)
     (auto simp: ReducedSim_solve_def ReducedSim_first_def
       split: if_splits sum.splits option.splits)

lemma session_returning:
  assumes "ReducedSim_session lib s cs = (rs, s', evs)"
    and "list_all (\<lambda>c. \<not> isl (fst c)) cs"
  shows "count_list evs GreedyCalled = count_list evs GreedyReturned"
  using assms
proof (induction cs arbitrary: s rs s' evs)
  case Nil
  then show ?case by simp
next
  case (Cons c cs)
  obtain d mu where c: "c = (Inr d, mu)"
    using Cons.prems(2) by (cases c, cases "fst c") auto
  obtain r s1 evs1 where one: "ReducedSim_solve lib (Inr d) s mu = (r, s1, evs1)"
    by (cases "ReducedSim_solve lib (Inr d) s mu")
  obtain rs2 s2 evs2 where rest: "ReducedSim_session lib s1 cs = (rs2, s2, evs2)"
    by (cases "ReducedSim_session lib s1 cs")
  have eq: "evs = evs1 @ evs2"
    using Cons.prems(1) c one rest by simp
  have "count_list evs2 GreedyCalled = count_list evs2 GreedyReturned"
    using Cons.IH [OF rest] Cons.prems(2) by simp
  then show ?case
    unfolding eq using solve_step_returning [OF one]
    by (simp add: count_called_append count_returned_append)
qed

lemma no_raise_single_build:
  assumes "ReducedSim_session lib ReducedSim_init cs = (rs, s, evs)"
    and "ReducedSim_solve lib g s mu = (r, s', evs')"
    and "list_all (\<lambda>c. \<not> isl (fst c)) cs" and "\<not> isl g"
  shows "count_list (evs @ evs') GreedyCalled = count_list (evs @ evs') GreedyReturned"
proof -
  obtain d where g: "g = Inr d" using assms(4) by (cases g) auto
  show ?thesis
    using session_returning [OF assms(1,3)] solve_step_returning [OF assms(2) [unfolded g]]
    by (simp add: count_called_append count_returned_append)
qed

text \<open>
  Claim C8, amended. After any sequence of calls of \<^verbatim>\<open>solve\<close> on a fresh \<^verbatim>\<open>ReducedSim\<close>, a
  further call keeps the lifecycle: over all calls the reduced problem is solved only
  after the build has completed, the build completes at most once and \<^verbatim>\<open>greedy\<close> is never
  entered again afterwards; a call that solves the reduced problem leaves \<^verbatim>\<open>first\<close>
  cleared and both attributes set, having completed the build just before the solve if
  the object was still unbuilt; a call on a built object only solves the reduced problem.
  When no call of \<^verbatim>\<open>greedy\<close> raises, \<^verbatim>\<open>greedy\<close> is entered at most once over all calls.
\<close>

theorem reduced_model_lifecycle:
  assumes "ReducedSim_session lib ReducedSim_init calls = (rs, s, evs)"
    and "ReducedSim_solve lib g s mu = (r, s', evs')"
  shows "lifecycle False (evs @ evs')
       \<and> count_list (evs @ evs') GreedyReturned \<le> 1
       \<and> (RbSolve mu \<in> set evs' \<longrightarrow>
            \<not> first s' \<and> rb_discretization s' \<noteq> None \<and> reconstructor s' \<noteq> None
            \<and> (first s \<longrightarrow> evs' = [GreedyCalled, GreedyReturned, RbSolve mu]))
       \<and> (\<not> first s \<longrightarrow> evs' = [RbSolve mu] \<and> s' = s)
       \<and> (first s \<longleftrightarrow> GreedyReturned \<notin> set evs)
       \<and> (list_all (\<lambda>c. \<not> isl (fst c)) calls \<and> \<not> isl g
            \<longrightarrow> count_list (evs @ evs') GreedyCalled \<le> 1)"
proof -
  note a = session_from_init [OF assms(1)]
  have inv: "sim_inv s" using a by simp
  note b = solve_step [OF inv assms(2)]
  have f1: "(\<not> first s) = (GreedyReturned \<in> set evs)"
    using a by simp
  have l: "lifecycle False (evs @ evs')"
    unfolding lifecycle_append using a b f1 by simp
  have cnt: "count_list (evs @ evs') GreedyReturned \<le> 1"
  proof (cases "first s")
    case True
    then have "count_list evs GreedyReturned = 0" using f1 by (simp add: count_list_0_iff)
    then show ?thesis using b True by (simp add: count_returned_append)
  next
    case False
    then have "count_list evs' GreedyReturned = 0" using b by simp
    then show ?thesis using a by (simp add: count_returned_append)
  qed
  have nf: "\<not> first s \<longrightarrow> evs' = [RbSolve mu] \<and> s' = s"
    using inv assms(2)
    by (auto simp: ReducedSim_solve_def sim_inv_def split: sum.splits option.splits)
  have once: "list_all (\<lambda>c. \<not> isl (fst c)) calls \<and> \<not> isl g
            \<longrightarrow> count_list (evs @ evs') GreedyCalled \<le> 1"
    using no_raise_single_build [OF assms] cnt by simp
  show ?thesis
    using l cnt b nf f1 once by blast
qed

theorem reduced_model_lifecycle_witness:
  "\<exists>rs s evs r s' evs'.
     ReducedSim_session \<lparr>rb_solve = (\<lambda>rd mu. Inr (rd + mu)), reconstruct = (\<lambda>rc u. rc * u)\<rparr>
       ReducedSim_init [(Inr (5, 7), 2 :: nat)] = (rs, s, evs)
     \<and> ReducedSim_solve \<lparr>rb_solve = (\<lambda>rd mu. Inr (rd + mu)), reconstruct = (\<lambda>rc u. rc * u)\<rparr>
          (Inr (8, 9)) s 3 = (r, s', evs')
     \<and> rs = [Inr (49 :: nat)] \<and> r = Inr 56
     \<and> evs @ evs' = [GreedyCalled, GreedyReturned, RbSolve 2, RbSolve 3]
     \<and> lifecycle False (evs @ evs')
     \<and> count_list (evs @ evs') GreedyReturned \<le> 1
     \<and> count_list (evs @ evs') GreedyCalled \<le> 1"
proof -
  let ?lib = "\<lparr>rb_solve = (\<lambda>rd mu. Inr (rd + mu)), reconstruct = (\<lambda>rc u. rc * u)\<rparr>
                :: (nat, nat, nat, nat, nat) library"
  let ?s = "\<lparr>first = False, rb_discretization = Some (5 :: nat), reconstructor = Some (7 :: nat)\<rparr>"
  have a: "ReducedSim_session ?lib ReducedSim_init [(Inr (5, 7), 2)]
      = ([Inr 49], ?s, [GreedyCalled, GreedyReturned, RbSolve 2])"
    by (simp add: ReducedSim_solve_def ReducedSim_first_def ReducedSim_init_def)
  have b: "ReducedSim_solve ?lib (Inr (8, 9)) ?s 3 = (Inr 56, ?s, [RbSolve 3])"
    by (simp add: ReducedSim_solve_def)
  show ?thesis
    using reduced_model_lifecycle [OF a b] a b by simp
qed

text \<open>
  Claim C8 as stated fails where it says that the build runs at most once: when the first
  call of \<^verbatim>\<open>greedy\<close> raises, \<^verbatim>\<open>first\<close> stays set and the next call of \<^verbatim>\<open>solve\<close> enters
  \<^verbatim>\<open>greedy\<close> again. In this session of two calls \<^verbatim>\<open>greedy\<close> is entered twice.
\<close>

theorem build_entered_again_after_raise:
  "ReducedSim_session \<lparr>rb_solve = (\<lambda>rd mu. Inr (rd + mu)), reconstruct = (\<lambda>rc u. rc * u)\<rparr>
     ReducedSim_init [(Inl LinearSolverFailure, 1), (Inr (5, 7), 2 :: nat)]
   = ([Inl LinearSolverFailure, Inr (49 :: nat)],
      \<lparr>first = False, rb_discretization = Some (5 :: nat), reconstructor = Some (7 :: nat)\<rparr>,
      [GreedyCalled, GreedyCalled, GreedyReturned, RbSolve 2])
   \<and> count_list [GreedyCalled, GreedyCalled, GreedyReturned, RbSolve (2 :: nat)] GreedyCalled = 2"
  by (simp add: ReducedSim_solve_def ReducedSim_first_def ReducedSim_init_def)

section \<open>Properties of the greedy basis construction\<close>




















end
